theory Spec2Isabelle
  imports Complex_Main "HOL-Library.Sublist" "HOL-Library.AList"
begin

section \<open>Strings\<close>

text \<open>
  A JavaScript string is a sequence of UTF-16 code units. A \<open>string\<close> here is a list of
  8-bit characters, read as the code units below 256 (ASCII and Latin-1): the functions of
  this section are the JavaScript ones on strings over that alphabet.
\<close>

text \<open>
  \<open>s.split(sep)\<close> for a separator of one character: the pieces between the separators,
  empty pieces included; a string without separator is its only piece.
\<close>

fun js_split :: "char \<Rightarrow> string \<Rightarrow> string list" where
  "js_split sep [] = [[]]"
| "js_split sep (c # cs) =
     (if c = sep then [] # js_split sep cs
      else (case js_split sep cs of
              [] \<Rightarrow> [[c]]
            | w # ws \<Rightarrow> (c # w) # ws))"

text \<open>
  The characters \<open>trim\<close> strips: tab, line feed, vertical tab, form feed, carriage
  return, space and no-break space.
\<close>

definition is_space :: "char \<Rightarrow> bool" where
  "is_space c = (c \<in> set [CHR 0x09, CHR 0x0A, CHR 0x0B, CHR 0x0C, CHR 0x0D, CHR 0x20, CHR 0xA0])"

definition js_trim :: "string \<Rightarrow> string" where
  "js_trim s = rev (dropWhile is_space (rev (dropWhile is_space s)))"

text \<open>\<open>s.includes(sub)\<close>: \<open>sub\<close> occurs in \<open>s\<close> as a contiguous substring.\<close>

fun js_includes :: "string \<Rightarrow> string \<Rightarrow> bool" where
  "js_includes [] sub = (sub = [])"
| "js_includes (c # cs) sub = (prefix sub (c # cs) \<or> js_includes cs sub)"

text \<open>\<open>s.toLowerCase()\<close>: the letters A-Z and the Latin-1 capitals map to their small forms.\<close>

definition lower_char :: "char \<Rightarrow> char" where
  "lower_char c =
     (case map_of
        (zip (''ABCDEFGHIJKLMNOPQRSTUVWXYZ'' @
              [CHR 0xC0, CHR 0xC1, CHR 0xC2, CHR 0xC3, CHR 0xC4, CHR 0xC5, CHR 0xC6, CHR 0xC7, CHR 0xC8, CHR 0xC9, CHR 0xCA, CHR 0xCB, CHR 0xCC, CHR 0xCD, CHR 0xCE, CHR 0xCF, CHR 0xD0, CHR 0xD1, CHR 0xD2, CHR 0xD3, CHR 0xD4, CHR 0xD5, CHR 0xD6, CHR 0xD8, CHR 0xD9, CHR 0xDA, CHR 0xDB, CHR 0xDC, CHR 0xDD, CHR 0xDE])
             (''abcdefghijklmnopqrstuvwxyz'' @
              [CHR 0xE0, CHR 0xE1, CHR 0xE2, CHR 0xE3, CHR 0xE4, CHR 0xE5, CHR 0xE6, CHR 0xE7, CHR 0xE8, CHR 0xE9, CHR 0xEA, CHR 0xEB, CHR 0xEC, CHR 0xED, CHR 0xEE, CHR 0xEF, CHR 0xF0, CHR 0xF1, CHR 0xF2, CHR 0xF3, CHR 0xF4, CHR 0xF5, CHR 0xF6, CHR 0xF8, CHR 0xF9, CHR 0xFA, CHR 0xFB, CHR 0xFC, CHR 0xFD, CHR 0xFE])) c of
        Some d \<Rightarrow> d
      | None \<Rightarrow> c)"

definition js_lower :: "string \<Rightarrow> string" where
  "js_lower s = map lower_char s"

text \<open>
  The first occurrence of \<open>pat\<close> in \<open>s\<close>: the text before it and the text after it.
\<close>

fun split_at_first :: "string \<Rightarrow> string \<Rightarrow> (string \<times> string) option" where
  "split_at_first pat [] = (if pat = [] then Some ([], []) else None)"
| "split_at_first pat (c # cs) =
     (if prefix pat (c # cs) then Some ([], drop (length pat) (c # cs))
      else map_option (\<lambda>(before, after). (c # before, after)) (split_at_first pat cs))"

text \<open>
  The replacement text of \<open>String.prototype.replace\<close> for a string pattern: \<open>$$\<close> stands
  for a dollar sign, \<open>$&\<close> for the matched text, \<open>$`\<close> for the text before the match and
  \<open>$'\<close> for the text after it; any other dollar sign stands for itself (a string pattern
  has no capture groups).
\<close>

fun expand_replacement :: "string \<Rightarrow> string \<Rightarrow> string \<Rightarrow> string \<Rightarrow> string" where
  "expand_replacement matched before after [] = []"
| "expand_replacement matched before after [c] = [c]"
| "expand_replacement matched before after (c # d # ds) =
     (if c = CHR ''$'' \<and> d = CHR ''$'' then CHR ''$'' # expand_replacement matched before after ds
      else if c = CHR ''$'' \<and> d = CHR ''&'' then matched @ expand_replacement matched before after ds
      else if c = CHR ''$'' \<and> d = CHR 0x60 then before @ expand_replacement matched before after ds
      else if c = CHR ''$'' \<and> d = CHR 0x27 then after @ expand_replacement matched before after ds
      else c # expand_replacement matched before after (d # ds))"

text \<open>\<open>s.replace(pat, rep)\<close> with a string pattern: only the first occurrence is replaced.\<close>

definition js_replace :: "string \<Rightarrow> string \<Rightarrow> string \<Rightarrow> string" where
  "js_replace s pat rep =
     (case split_at_first pat s of
        None \<Rightarrow> s
      | Some (before, after) \<Rightarrow> before @ expand_replacement pat before after rep @ after)"

text \<open>The decimal digits of a natural number, as a template literal prints it.\<close>

fun show_nat :: "nat \<Rightarrow> string" where
  "show_nat n =
     (if n < 10 then [''0123456789'' ! n]
      else show_nat (n div 10) @ [''0123456789'' ! (n mod 10)])"

declare show_nat.simps [simp del]

definition is_digit :: "char \<Rightarrow> bool" where
  "is_digit c = (c \<in> set ''0123456789'')"

section \<open>JavaScript values\<close>

text \<open>
  A value as \<open>JSON.parse\<close> yields it, or \<open>undefined\<close>. An object is the list of its own
  properties in insertion order, each key once. Numbers are integers here: the feeds'
  numbers are only tested for being zero.
\<close>

datatype json =
    JUndefined
  | JNull
  | JBool bool
  | JNum int
  | JStr string
  | JArr "json list"
  | JObj "(string \<times> json) list"

text \<open>
  What a \<open>catch\<close> block receives: \<open>error.response.status\<close> when the error carries an HTTP
  response (an axios error for a status outside 2xx), and \<open>error.message\<close>.
\<close>

datatype js_error = JsError (err_status: "nat option") (err_message: string)

text \<open>Truthiness: \<open>undefined\<close>, \<open>null\<close>, \<open>false\<close>, \<open>0\<close> and \<open>""\<close> are falsy.\<close>

fun truthy :: "json \<Rightarrow> bool" where
  "truthy JUndefined = False"
| "truthy JNull = False"
| "truthy (JBool b) = b"
| "truthy (JNum n) = (n \<noteq> 0)"
| "truthy (JStr s) = (s \<noteq> [])"
| "truthy (JArr xs) = True"
| "truthy (JObj kvs) = True"

text \<open>\<open>a || b\<close>.\<close>

definition js_or :: "json \<Rightarrow> json \<Rightarrow> json" where
  "js_or a b = (if truthy a then a else b)"

definition nullish :: "json \<Rightarrow> bool" where
  "nullish v = (v = JUndefined \<or> v = JNull)"

text \<open>
  The \<open>TypeError\<close> of a property read on \<open>undefined\<close> or \<open>null\<close>, with the message V8
  gives it, and the one of a call of something that is not a function.
\<close>

definition cannot_read :: "json \<Rightarrow> string \<Rightarrow> js_error" where
  "cannot_read v k =
     JsError None
       (''Cannot read properties of '' @ (if v = JNull then ''null'' else ''undefined'') @
        '' (reading '' @ [CHR 0x27] @ k @ [CHR 0x27] @ '')'')"

definition not_a_function :: "string \<Rightarrow> js_error" where
  "not_a_function what = JsError None (what @ '' is not a function'')"

text \<open>
  \<open>v.k\<close> on a value that is neither \<open>undefined\<close> nor \<open>null\<close>: the own property of an
  object, \<open>undefined\<close> when the object has none of that name or the value is not an object.
  Built-in and inherited properties (the length and the elements of a string or an array,
  prototype methods) are not part of the model; the adapters read none of them from a
  parsed JSON object.
\<close>

fun field :: "json \<Rightarrow> string \<Rightarrow> json" where
  "field (JObj kvs) k = (case map_of kvs k of Some v \<Rightarrow> v | None \<Rightarrow> JUndefined)"
| "field _ k = JUndefined"

text \<open>\<open>v.k\<close> on any value: a read on \<open>undefined\<close> or \<open>null\<close> throws.\<close>

definition js_get :: "json \<Rightarrow> string \<Rightarrow> js_error + json" where
  "js_get v k = (if nullish v then Inl (cannot_read v k) else Inr (field v k))"

text \<open>\<open>xs.map(f)\<close> where \<open>f\<close> may throw: the first exception ends the loop.\<close>

fun map_throw :: "('a \<Rightarrow> js_error + 'b) \<Rightarrow> 'a list \<Rightarrow> js_error + 'b list" where
  "map_throw f [] = Inr []"
| "map_throw f (x # xs) =
     (case f x of
        Inl e \<Rightarrow> Inl e
      | Inr y \<Rightarrow> (case map_throw f xs of Inl e \<Rightarrow> Inl e | Inr ys \<Rightarrow> Inr (y # ys)))"

text \<open>
  The own enumerable properties \<open>Object.assign\<close> copies from a source: those of an object,
  the elements of an array or the characters of a string under their indices, none for
  any other value.
\<close>

fun own_properties :: "json \<Rightarrow> (string \<times> json) list" where
  "own_properties (JObj kvs) = kvs"
| "own_properties (JArr xs) = zip (map show_nat [0 ..< length xs]) xs"
| "own_properties (JStr s) = zip (map show_nat [0 ..< length s]) (map (\<lambda>c. JStr [c]) s)"
| "own_properties _ = []"

text \<open>
  \<open>obj[k] = v\<close> on a property list: the value of an existing property is replaced where it
  stands, a new property is added at the end. An assignment to \<open>__proto__\<close> creates no own
  property (it addresses the prototype, which the model does not hold).
\<close>

definition js_set_prop :: "string \<Rightarrow> 'a \<Rightarrow> (string \<times> 'a) list \<Rightarrow> (string \<times> 'a) list" where
  "js_set_prop k v obj = (if k = ''__proto__'' then obj else AList.update k v obj)"

text \<open>\<open>Object.assign(target, source)\<close>, on the target's property list.\<close>

definition object_assign :: "(string \<times> json) list \<Rightarrow> json \<Rightarrow> (string \<times> json) list" where
  "object_assign target source =
     fold (\<lambda>(k, v) acc. js_set_prop k v acc) (own_properties source) target"

text \<open>
  \<open>Object.keys\<close> of a property list: the keys that are array indices (canonical decimal
  numerals below \<open>2^32 - 1\<close>) come first, in ascending numeric order, then the other keys
  in insertion order.
\<close>

definition digit_value :: "char \<Rightarrow> nat" where
  "digit_value c =
     (case map_of (zip ''0123456789'' [0, 1, 2, 3, 4, 5, 6, 7, 8, 9]) c of
        Some d \<Rightarrow> d
      | None \<Rightarrow> 0)"

definition decimal_value :: "string \<Rightarrow> nat" where
  "decimal_value s = fold (\<lambda>c n. 10 * n + digit_value c) s 0"

definition is_array_index :: "string \<Rightarrow> bool" where
  "is_array_index k =
     (k \<noteq> [] \<and> list_all is_digit k
      \<and> (k = ''0'' \<or> hd k \<noteq> CHR ''0'') \<and> decimal_value k < 4294967295)"

definition object_keys :: "(string \<times> 'a) list \<Rightarrow> string list" where
  "object_keys obj =
     sort_key decimal_value (filter is_array_index (map fst obj))
     @ filter (\<lambda>k. \<not> is_array_index k) (map fst obj)"

section \<open>The card-grid \<open>FeedPlayer\<close> with \<open>feedType\<close> and \<open>feedFields\<close>\<close>

text \<open>
  \<open>detectFeedType\<close>: the first host pattern the URL contains decides the kind.
\<close>

definition detectFeedType :: "string \<Rightarrow> string" where
  "detectFeedType u =
     (if js_includes u ''api.nasa.gov'' then ''nasa''
      else if js_includes u ''seeclickfix.com'' then ''seeclickfix''
      else if js_includes u ''bsky.app'' then ''bsky''
      else if js_includes u ''docs.google.com/spreadsheets'' then ''googlesheet''
      else ''default'')"

text \<open>
  \<open>url.match(/\/d\/(.*?)(\/|$)/)\<close>, its first capture group: at the leftmost \<open>/d/\<close>
  from which the pattern matches, the shortest text up to the next slash or the end of
  the string. The dot matches no line terminator, so a start whose text up to there holds
  a line feed or a carriage return does not match, and the search goes on to the right.
  \<open>None\<close> is the \<open>null\<close> of a failed match.
\<close>

fun sheet_id_match :: "string \<Rightarrow> string option" where
  "sheet_id_match [] = None"
| "sheet_id_match (c # cs) =
     (let cand = takeWhile (\<lambda>x. x \<noteq> CHR ''/'') (drop 3 (c # cs)) in
      if prefix ''/d/'' (c # cs) \<and> CHR 0x0A \<notin> set cand \<and> CHR 0x0D \<notin> set cand
      then Some cand
      else sheet_id_match cs)"

text \<open>The URL \<open>processGoogleSheetUrl\<close> builds from a document identifier.\<close>

definition gviz_url :: "string \<Rightarrow> string" where
  "gviz_url ident = ''https://docs.google.com/spreadsheets/d/'' @ ident @ ''/gviz/tq?tqx=out:csv''"

text \<open>
  \<open>processGoogleSheetUrl\<close>: a URL that contains \<open>/pub?\<close> or \<open>/gviz/tq?\<close> is returned as
  it is; otherwise, \<open>if (matches && matches[1])\<close>, the URL is rebuilt from the captured
  identifier, and else returned as it is.
\<close>

definition processGoogleSheetUrl :: "string \<Rightarrow> string" where
  "processGoogleSheetUrl u =
     (if js_includes u ''/pub?'' \<or> js_includes u ''/gviz/tq?'' then u
      else (case sheet_id_match u of
              Some ident \<Rightarrow> (if ident \<noteq> [] then gviz_url ident else u)
            | None \<Rightarrow> u))"

text \<open>
  The URL list of \<open>fetchFeeds\<close>:
  \<open>feedUrls.split('|').map(trim).filter(url => url).map(normalise)\<close>.
\<close>

definition parseFeedUrls :: "string \<Rightarrow> string list" where
  "parseFeedUrls feedUrls =
     map (\<lambda>u. if detectFeedType u = ''googlesheet'' then processGoogleSheetUrl u else u)
       (filter (\<lambda>u. u \<noteq> []) (map js_trim (js_split CHR ''|'' feedUrls)))"

text \<open>
  \<open>processFeedItem(item, type, sourceUrl)\<close>, with the component's \<open>feedFields\<close>. The first
  property read throws when the item is \<open>undefined\<close> or \<open>null\<close>; a missing property reads
  as \<open>undefined\<close>. In the default case with an empty \<open>feedFields\<close> the item's own properties
  are copied over \<open>{source: sourceUrl}\<close>.
\<close>

definition processFeedItem :: "string list \<Rightarrow> json \<Rightarrow> string \<Rightarrow> string \<Rightarrow> js_error + json" where
  "processFeedItem feedFields item type sourceUrl =
     (let t = js_lower type in
      if t = ''nasa'' then
        (if nullish item then Inl (cannot_read item ''title'')
         else Inr (JObj
           [(''title'', field item ''title''),
            (''description'', field item ''explanation''),
            (''url'', field item ''url''),
            (''date'', field item ''date''),
            (''media_type'', field item ''media_type''),
            (''source'', JStr ''NASA APOD'')]))
      else if t = ''seeclickfix'' then
        (if nullish item then Inl (cannot_read item ''summary'')
         else Inr (JObj
           [(''title'', js_or (field item ''summary'') (field item ''title'')),
            (''description'', field item ''description''),
            (''url'', js_or (field item ''html_url'') (field item ''url'')),
            (''date'', js_or (field item ''created_at'') (field item ''date'')),
            (''source'', JStr ''SeeClickFix''),
            (''media_type'', JStr ''text'')]))
      else if t = ''bsky'' then
        (if nullish item then Inl (cannot_read item ''title'')
         else Inr (JObj
           [(''title'', field item ''title''),
            (''description'', js_or (field item ''content'') (field item ''description'')),
            (''url'', js_or (field item ''link'') (field item ''url'')),
            (''date'', js_or (field item ''pubDate'') (field item ''date'')),
            (''source'', JStr ''BlueSky''),
            (''media_type'', JStr ''text'')]))
      else if feedFields \<noteq> [] then
        (if nullish item then Inl (cannot_read item (hd feedFields))
         else Inr (JObj
           (fold (\<lambda>f acc. js_set_prop f (field item f) acc) feedFields
              [(''source'', JStr sourceUrl)])))
      else Inr (JObj (object_assign [(''source'', JStr sourceUrl)] item)))"

text \<open>
  The spreadsheet case: \<open>data.split('\n').map(row => row.split(','))\<close>, the first row as
  headers, and for each later row the object with
  \<open>item[header.trim()] = row[index]?.trim() || ''\<close> for every header.
\<close>

definition csv_rows :: "string \<Rightarrow> string list list" where
  "csv_rows body = map (js_split CHR '','') (js_split CHR 0x0A body)"

definition csv_cell :: "string list \<Rightarrow> nat \<Rightarrow> string" where
  "csv_cell row i = (if i < length row then js_trim (row ! i) else [])"

definition csv_item :: "string list \<Rightarrow> string list \<Rightarrow> json" where
  "csv_item headers row =
     JObj (fold (\<lambda>i acc. js_set_prop (js_trim (headers ! i)) (JStr (csv_cell row i)) acc)
             [0 ..< length headers] [])"

definition csv_items :: "string \<Rightarrow> json list" where
  "csv_items body = map (csv_item (hd (csv_rows body))) (tl (csv_rows body))"

text \<open>
  The body of the per-URL \<open>try\<close> of \<open>fetchFeeds\<close>. \<open>get\<close> is \<open>axios.get\<close>: the response
  data, or the error it rejects with. The result is the array the callback returns, or
  the exception thrown on the way.
\<close>

definition fetchFeedUrl ::
  "(string \<Rightarrow> js_error + json) \<Rightarrow> string \<Rightarrow> string list \<Rightarrow> string \<Rightarrow> js_error + json list" where
  "fetchFeedUrl get feedType feedFields u =
     (case get u of
        Inl e \<Rightarrow> Inl e
      | Inr data \<Rightarrow>
          (let currentFeedType = (if feedType = ''mixed'' then detectFeedType u else feedType);
               t = js_lower currentFeedType in
           if t = ''nasa'' then
             map_throw (\<lambda>item. processFeedItem feedFields item ''nasa'' u)
               (case data of JArr xs \<Rightarrow> xs | _ \<Rightarrow> [data])
           else if t = ''seeclickfix'' then
             (if nullish data then Inl (cannot_read data ''issues'')
              else (case js_or (field data ''issues'') data of
                      JArr xs \<Rightarrow> map_throw (\<lambda>item. processFeedItem feedFields item ''seeclickfix'' u) xs
                    | _ \<Rightarrow> Inr []))
           else if t = ''bsky'' then
             (if nullish data then Inl (cannot_read data ''items'')
              else (case js_or (field data ''items'') data of
                      JArr xs \<Rightarrow> map_throw (\<lambda>item. processFeedItem feedFields item ''bsky'' u) xs
                    | _ \<Rightarrow> Inr []))
           else if t = ''googlesheet'' then
             (case data of
                JStr body \<Rightarrow>
                  map_throw (\<lambda>item. processFeedItem feedFields item ''googlesheet'' u) (csv_items body)
              | _ \<Rightarrow>
                  (if nullish data then Inl (cannot_read data ''split'')
                   else Inl (not_a_function ''data.split'')))
           else if feedFields \<noteq> [] then
             (case data of
                JArr xs \<Rightarrow> map_throw (\<lambda>item. processFeedItem feedFields item ''default'' u) xs
              | _ \<Rightarrow> map_throw (\<lambda>item. processFeedItem feedFields item ''default'' u) [data])
           else Inr (case data of JArr xs \<Rightarrow> xs | _ \<Rightarrow> [data])))"

text \<open>The per-URL \<open>catch\<close>: the error is logged and the URL contributes an empty array.\<close>

definition fetchFeedUrlCaught ::
  "(string \<Rightarrow> js_error + json) \<Rightarrow> string \<Rightarrow> string list \<Rightarrow> string \<Rightarrow> json list" where
  "fetchFeedUrlCaught get feedType feedFields u =
     (case fetchFeedUrl get feedType feedFields u of Inl e \<Rightarrow> [] | Inr items \<Rightarrow> items)"

text \<open>The component state: the items shown, the loading flag and the error message.\<close>

record feed_player =
  feeds :: "json list"
  loading :: bool
  error :: "string option"

text \<open>
  \<open>results.flat()\<close> over the per-URL arrays of \<open>Promise.all\<close>, in the order of the URLs.
\<close>

definition flattenedResults ::
  "(string \<Rightarrow> js_error + json) \<Rightarrow> string \<Rightarrow> string list \<Rightarrow> string list \<Rightarrow> json list" where
  "flattenedResults get feedType feedFields urls =
     concat (map (fetchFeedUrlCaught get feedType feedFields) urls)"

text \<open>
  \<open>fetchFeeds\<close>: no URL, or no item at all, sets the error message; otherwise the items
  replace \<open>feeds\<close>.
\<close>

definition fetchFeeds ::
  "(string \<Rightarrow> js_error + json) \<Rightarrow> string \<Rightarrow> string \<Rightarrow> string list \<Rightarrow> feed_player \<Rightarrow> feed_player" where
  "fetchFeeds get feedUrls feedType feedFields st =
     (let urls = parseFeedUrls feedUrls in
      if urls = [] then st\<lparr>error := Some ''No valid feed URLs provided'', loading := False\<rparr>
      else (let items = flattenedResults get feedType feedFields urls in
            if items = [] then st\<lparr>error := Some ''No feed data available'', loading := False\<rparr>
            else st\<lparr>feeds := items, loading := False\<rparr>))"

section \<open>The \<open>FeedPlayer\<close> variants with a feed map\<close>

text \<open>
  \<open>buildFeedMap\<close> of the variant keyed by explicit names:
  \<open>feedUrls.split('|').reduce((acc, entry) => { const [key, url] = entry.split('=');
  if (key && url) acc[key.trim()] = url.trim(); return acc; }, {})\<close>.
  \<open>key\<close> is the text before the first \<open>=\<close> and \<open>url\<close> the text between the first and the
  second one, \<open>undefined\<close> when the entry has no \<open>=\<close>. \<open>feedMapStep\<close> is the callback of
  \<open>reduce\<close>.
\<close>

definition entry_key :: "string \<Rightarrow> string" where
  "entry_key entry = hd (js_split CHR ''='' entry)"

definition entry_url :: "string \<Rightarrow> string option" where
  "entry_url entry =
     (case js_split CHR ''='' entry of
        k # u # rest \<Rightarrow> Some u
      | _ \<Rightarrow> None)"

definition entry_accepted :: "string \<Rightarrow> bool" where
  "entry_accepted entry =
     (entry_key entry \<noteq> [] \<and> (case entry_url entry of Some u \<Rightarrow> u \<noteq> [] | None \<Rightarrow> False))"

definition feedMapStep :: "string \<Rightarrow> (string \<times> string) list \<Rightarrow> (string \<times> string) list" where
  "feedMapStep entry acc =
     (if entry_accepted entry
      then js_set_prop (js_trim (entry_key entry))
             (js_trim (case entry_url entry of Some u \<Rightarrow> u | None \<Rightarrow> [])) acc
      else acc)"

definition buildFeedMap :: "string \<Rightarrow> (string \<times> string) list" where
  "buildFeedMap feedUrls = fold feedMapStep (js_split CHR ''|'' feedUrls) []"

text \<open>\<open>feedKeys = Object.keys(feedMap)\<close>.\<close>

definition feedKeys :: "string \<Rightarrow> string list" where
  "feedKeys feedUrls = object_keys (buildFeedMap feedUrls)"

text \<open>
  The spreadsheet normalisation written out inside \<open>fetchFeeds\<close> of the feed-map variants
  (FeedPlayer.tsx): only a URL that contains \<open>/gviz/tq?\<close> is left as it is.
\<close>

definition inlineSheetUrl :: "string \<Rightarrow> string" where
  "inlineSheetUrl selectedUrl =
     (if detectFeedType selectedUrl = ''googlesheet'' then
        (if \<not> js_includes selectedUrl ''/gviz/tq?'' then
           (case sheet_id_match selectedUrl of
              Some ident \<Rightarrow> (if ident \<noteq> [] then gviz_url ident else selectedUrl)
            | None \<Rightarrow> selectedUrl)
         else selectedUrl)
      else selectedUrl)"

section \<open>The plain \<open>FeedPlayer\<close> (components/FeedPlayer.jsx)\<close>

text \<open>
  What the loop of \<open>fetchFeeds\<close> reads from outside: \<open>axios.get\<close> and the two
  \<open>localStorage\<close> entries (\<open>None\<close> when \<open>getItem\<close> returns \<open>null\<close>).
\<close>

record grid_env =
  grid_get :: "string \<Rightarrow> js_error + json"
  latitude :: "string option"
  longitude :: "string option"

text \<open>\<open>localStorage.getItem(k) || fallback\<close>.\<close>

definition stored_or :: "string option \<Rightarrow> string \<Rightarrow> string" where
  "stored_or v fallback = (case v of Some s \<Rightarrow> (if s \<noteq> [] then s else fallback) | None \<Rightarrow> fallback)"

text \<open>The request URL: for a SeeClickFix URL the two placeholders are replaced.\<close>

definition apiUrl :: "grid_env \<Rightarrow> string \<Rightarrow> string" where
  "apiUrl env u =
     (if js_includes u ''seeclickfix.com''
      then js_replace (js_replace u ''{latitude}'' (stored_or (latitude env) ''41.307''))
             ''{longitude}'' (stored_or (longitude env) ''-72.925'')
      else u)"

text \<open>
  The filter callback:
  \<open>item.media && (item.media.image_full || item.media.representative_image_url)\<close>.
\<close>

definition hasImage :: "json \<Rightarrow> js_error + bool" where
  "hasImage item =
     (if nullish item then Inl (cannot_read item ''media'')
      else (let media = field item ''media'' in
            Inr (truthy media
                 \<and> truthy (js_or (field media ''image_full'')
                              (field media ''representative_image_url'')))))"

text \<open>
  An issue possesses a media image when its \<open>media\<close> is truthy and holds a truthy
  \<open>image_full\<close> or \<open>representative_image_url\<close>.
\<close>

definition possessesImage :: "json \<Rightarrow> bool" where
  "possessesImage item =
     (truthy (field item ''media'')
      \<and> (truthy (field (field item ''media'') ''image_full'')
         \<or> truthy (field (field item ''media'') ''representative_image_url'')))"

text \<open>\<open>xs.filter(p)\<close> where \<open>p\<close> may throw.\<close>

fun filter_throw :: "('a \<Rightarrow> js_error + bool) \<Rightarrow> 'a list \<Rightarrow> js_error + 'a list" where
  "filter_throw p [] = Inr []"
| "filter_throw p (x # xs) =
     (case p x of
        Inl e \<Rightarrow> Inl e
      | Inr b \<Rightarrow>
          (case filter_throw p xs of
             Inl e \<Rightarrow> Inl e
           | Inr ys \<Rightarrow> Inr (if b then x # ys else ys)))"

text \<open>
  The body of the \<open>try\<close> for one URL: the items to append to \<open>allItems\<close>, or the
  exception.
\<close>

definition gridItems :: "grid_env \<Rightarrow> string \<Rightarrow> js_error + json list" where
  "gridItems env u =
     (case grid_get env (apiUrl env u) of
        Inl e \<Rightarrow> Inl e
      | Inr response \<Rightarrow>
          (if nullish response then Inl (cannot_read response ''issues'')
           else (let data = js_or (field response ''issues'') response in
                 if js_includes (apiUrl env u) ''seeclickfix.com'' then
                   (case data of
                      JArr xs \<Rightarrow>
                        (case filter_throw hasImage xs of
                           Inl e \<Rightarrow> Inl e
                         | Inr ys \<Rightarrow> Inr (take 5 ys))
                    | _ \<Rightarrow> Inl (not_a_function ''data.filter''))
                 else Inr (case data of JArr xs \<Rightarrow> xs | _ \<Rightarrow> [data]))))"

text \<open>The item the \<open>catch\<close> pushes.\<close>

definition failedFeedItem :: "js_error \<Rightarrow> json" where
  "failedFeedItem e =
     JObj [(''title'', JStr ''Failed to load feed''),
           (''description'', JStr (err_message e)),
           (''image'', JStr [])]"

text \<open>One turn of the loop, and the loop over the URLs of \<open>feedUrls\<close>.\<close>

definition gridStep :: "grid_env \<Rightarrow> json list \<Rightarrow> string \<Rightarrow> json list" where
  "gridStep env allItems u =
     (case gridItems env u of
        Inl e \<Rightarrow> allItems @ [failedFeedItem e]
      | Inr items \<Rightarrow> allItems @ items)"

definition fetchFeeds_jsx :: "grid_env \<Rightarrow> string \<Rightarrow> json list" where
  "fetchFeeds_jsx env feedUrls =
     foldl (gridStep env) []
       (filter (\<lambda>u. u \<noteq> []) (map js_trim (js_split CHR ''|'' feedUrls)))"

section \<open>JavaScript numbers used by the player\<close>


text \<open>
  A JavaScript number as the playback index sees it: an integer, or a value that is not a
  finite number (\<open>NaN\<close>, \<open>Infinity\<close>, \<open>-Infinity\<close>), which every arithmetic step below
  keeps non-finite.
\<close>

datatype jsnum = Num int | NotFinite

text \<open>\<open>a + b\<close> on such numbers.\<close>

fun js_add :: "jsnum \<Rightarrow> jsnum \<Rightarrow> jsnum" where
  "js_add (Num a) (Num b) = Num (a + b)"
| "js_add _ _ = NotFinite"

text \<open>
  \<open>a % n\<close>: the remainder takes the sign of the dividend (truncated division), and a zero
  divisor gives \<open>NaN\<close>.
\<close>

fun js_rem :: "jsnum \<Rightarrow> jsnum \<Rightarrow> jsnum" where
  "js_rem (Num a) (Num n) = (if n = 0 then NotFinite else Num (sgn a * (\<bar>a\<bar> mod \<bar>n\<bar>)))"
| "js_rem _ _ = NotFinite"

text \<open>
  \<open>xs[i]\<close>: an array read. Outside \<open>0 \<le> i < xs.length\<close>, and at a non-finite index, the
  read does not fail: it yields \<open>undefined\<close>, here \<open>None\<close>.
\<close>

fun js_index :: "'a list \<Rightarrow> jsnum \<Rightarrow> 'a option" where
  "js_index xs (Num i) = (if 0 \<le> i \<and> i < int (length xs) then Some (xs ! nat i) else None)"
| "js_index xs NotFinite = None"

section \<open>The playback cursor of \<open>VideoPlayer\<close> (Context.jsx)\<close>

text \<open>
  An entry of \<open>mediaList\<close>, the list of configured feeds the context provides: its key
  \<open>feed\<close>, its display \<open>title\<close> and its \<open>url\<close> (one URL, or several separated by pipes).
\<close>

record feed_entry =
  feed :: string
  title :: string
  url :: string

text \<open>
  An item of a loaded feed, as \<open>fetchMediaFromAPI\<close> builds it: \<open>url\<close>, \<open>text\<close> and
  \<open>title\<close> hold whatever the feed gave, and \<open>isError\<close> is true on a placeholder (the
  property is absent on a regular item, which reads as false).
\<close>

record media_item =
  item_url :: json
  item_text :: json
  item_title :: json
  isError :: bool

text \<open>
  The part of the component state the cursor operations read and write: the feeds
  (\<open>mediaList\<close>), the selected feed's position (\<open>index\<close>), its items
  (\<open>selectedMediaList\<close>), the item index (\<open>currentMediaIndex\<close>) and the item shown
  (\<open>currentMedia\<close>, \<open>None\<close> when it is \<open>undefined\<close>).
\<close>

record player =
  mediaList :: "feed_entry list"
  index :: nat
  selectedMediaList :: "media_item list"
  currentMediaIndex :: jsnum
  currentMedia :: "media_item option"

text \<open>
  \<open>handleNext\<close>: \<open>setCurrentMediaIndex(prev => (prev + 1) % mediaList.length)\<close>. The
  modulus is the length of \<open>mediaList\<close>, the list of feeds.
\<close>

definition handleNext :: "player \<Rightarrow> player" where
  "handleNext st =
     st\<lparr>currentMediaIndex :=
          js_rem (js_add (currentMediaIndex st) (Num 1)) (Num (int (length (mediaList st))))\<rparr>"

text \<open>\<open>handlePrev\<close>: \<open>(prev - 1 + mediaList.length) % mediaList.length\<close>.\<close>

definition handlePrev :: "player \<Rightarrow> player" where
  "handlePrev st =
     st\<lparr>currentMediaIndex :=
          js_rem
            (js_add (js_add (currentMediaIndex st) (Num (- 1)))
               (Num (int (length (mediaList st)))))
            (Num (int (length (mediaList st))))\<rparr>"

text \<open>\<open>moveToSlide(index)\<close>: \<open>setCurrentMediaIndex(() => index)\<close>.\<close>

definition moveToSlide :: "jsnum \<Rightarrow> player \<Rightarrow> player" where
  "moveToSlide i st = st\<lparr>currentMediaIndex := i\<rparr>"

text \<open>
  The number of progress segments: \<open>selectedMediaList.length < 7 ? selectedMediaList.length : 7\<close>.
\<close>

definition totalSlides :: "player \<Rightarrow> nat" where
  "totalSlides st =
     (if length (selectedMediaList st) < 7 then length (selectedMediaList st) else 7)"

text \<open>
  \<open>handleProgressBarClick\<close>: \<open>clickX\<close> is the click position relative to the bar and
  \<open>progressWidth\<close> the bar's width; the target is
  \<open>Math.floor((clickX / progressWidth) * totalSlides)\<close>. The division is taken exactly,
  over the rationals; a zero width makes the quotient, and so the target, non-finite.
\<close>

definition targetSlide :: "rat \<Rightarrow> rat \<Rightarrow> player \<Rightarrow> jsnum" where
  "targetSlide clickX progressWidth st =
     (if progressWidth = 0 then NotFinite
      else Num \<lfloor>(clickX / progressWidth) * of_nat (totalSlides st)\<rfloor>)"

definition handleProgressBarClick :: "rat \<Rightarrow> rat \<Rightarrow> player \<Rightarrow> player" where
  "handleProgressBarClick clickX progressWidth st =
     moveToSlide (targetSlide clickX progressWidth st) st"

text \<open>
  The progress points rendered over the bar: one per element of
  \<open>selectedMediaList.slice(0, 7)\<close>, each calling \<open>moveToSlide\<close> with its position.
\<close>

definition progressPoints :: "player \<Rightarrow> nat list" where
  "progressPoints st = [0 ..< length (take 7 (selectedMediaList st))]"

definition clickProgressPoint :: "nat \<Rightarrow> player \<Rightarrow> player" where
  "clickProgressPoint i st = moveToSlide (Num (int i)) st"

text \<open>
  The effect that follows a change of \<open>currentMediaIndex\<close>: when the selected list is not
  empty, \<open>setCurrentMedia(selectedMediaList[currentMediaIndex])\<close>.
\<close>

definition syncCurrentMedia :: "player \<Rightarrow> player" where
  "syncCurrentMedia st =
     (if length (selectedMediaList st) > 0
      then st\<lparr>currentMedia := js_index (selectedMediaList st) (currentMediaIndex st)\<rparr>
      else st)"

text \<open>
  The hash-change handler, once the feed named by the fragment is found at position
  \<open>feedPos\<close> and its items \<open>selectedMedia\<close> are loaded: the reference \<open>ref\<close> is adopted
  only if \<open>ref >= 0 && selectedMedia[ref]\<close>; otherwise a warning is logged and the state is
  left as it was.
\<close>

definition adoptHashRef :: "nat \<Rightarrow> media_item list \<Rightarrow> int \<Rightarrow> player \<Rightarrow> player" where
  "adoptHashRef feedPos selectedMedia ref st =
     (case (if ref \<ge> 0 then js_index selectedMedia (Num ref) else None) of
        Some m \<Rightarrow>
          st\<lparr>index := feedPos, selectedMediaList := selectedMedia,
             currentMedia := Some m, currentMediaIndex := Num ref\<rparr>
      | None \<Rightarrow> st)"

section \<open>The loader of \<open>VideoPlayer\<close> (Context.jsx)\<close>

text \<open>
  What \<open>fetchMediaFromAPI\<close> returns: an array of items, or (for the swiper and the linked
  video) a single item object.
\<close>

datatype fetched = Items "media_item list" | Single media_item

text \<open>
  What the loader reads from outside: \<open>axios.get\<close>, the props \<open>swiperData\<close> and
  \<open>videoData\<close>, and \<open>otherFeeds\<close>, the switch cases \<open>film-scouting\<close>, \<open>repo\<close>, \<open>videos\<close>
  and \<open>feedview\<close> as a function of the feed kind and the response data (the properties
  below hold whatever these cases return or throw).
\<close>

record fetch_env =
  http_get :: "string \<Rightarrow> js_error + json"
  swiperData :: json
  videoData :: json
  otherFeeds :: "string \<Rightarrow> json \<Rightarrow> js_error + fetched"

definition noDescription :: json where
  "noDescription = JStr ''No description available''"

text \<open>
  The case \<open>seeclickfix-311\<close>: \<open>response.data.issues.map(item => ({url:
  item.media.image_full || item.media.representative_image_url, text: item.description ||
  "No description available", title: item.summary}))\<close>. Each property read on \<open>undefined\<close>
  or \<open>null\<close> throws, and so does \<open>map\<close> on a value that is not an array.
\<close>

definition seeclickfixItem :: "json \<Rightarrow> js_error + media_item" where
  "seeclickfixItem item =
     (if nullish item then Inl (cannot_read item ''media'')
      else (let media = field item ''media'' in
            if nullish media then Inl (cannot_read media ''image_full'')
            else Inr \<lparr>item_url = js_or (field media ''image_full'')
                                   (field media ''representative_image_url''),
                      item_text = js_or (field item ''description'') noDescription,
                      item_title = field item ''summary'',
                      isError = False\<rparr>))"

definition seeclickfix311 :: "json \<Rightarrow> js_error + media_item list" where
  "seeclickfix311 data =
     (if nullish data then Inl (cannot_read data ''issues'')
      else (case field data ''issues'' of
              JArr xs \<Rightarrow> map_throw seeclickfixItem xs
            | issues \<Rightarrow>
                (if nullish issues then Inl (cannot_read issues ''map'')
                 else Inl (not_a_function ''response.data.issues.map''))))"

text \<open>
  The default case: \<open>response.data.map(item => ({url: item.hdurl || item.url, text:
  item.explanation || "No description available", title: item.title}))\<close>.
\<close>

definition defaultItem :: "json \<Rightarrow> js_error + media_item" where
  "defaultItem item =
     (if nullish item then Inl (cannot_read item ''hdurl'')
      else Inr \<lparr>item_url = js_or (field item ''hdurl'') (field item ''url''),
                item_text = js_or (field item ''explanation'') noDescription,
                item_title = field item ''title'',
                isError = False\<rparr>)"

definition defaultFeed :: "json \<Rightarrow> js_error + media_item list" where
  "defaultFeed data =
     (case data of
        JArr xs \<Rightarrow> map_throw defaultItem xs
      | _ \<Rightarrow>
          (if nullish data then Inl (cannot_read data ''map'')
           else Inl (not_a_function ''response.data.map'')))"

text \<open>The placeholder a missing \<open>swiperData\<close> or \<open>videoData\<close> gives.\<close>

definition pleaseItem :: "feed_entry \<Rightarrow> string \<Rightarrow> media_item" where
  "pleaseItem media msg =
     \<lparr>item_url = JNull, item_text = JStr msg,
      item_title = JStr (''Failed to load '' @ title media), isError = True\<rparr>"

text \<open>The body of the \<open>try\<close> of \<open>fetchMediaFromAPI\<close>.\<close>

definition fetchMediaTry :: "fetch_env \<Rightarrow> feed_entry \<Rightarrow> js_error + fetched" where
  "fetchMediaTry env media =
     (let kind = js_lower (js_trim (feed media)) in
      if kind = ''swiper'' \<and> url media \<noteq> [] then
        (if \<not> truthy (swiperData env)
         then Inr (Single (pleaseItem media ''Please click on a Swiper Image to view''))
         else Inr (Single
           \<lparr>item_url = field (swiperData env) ''url'',
            item_text = js_or (field (swiperData env) ''text'') noDescription,
            item_title = field (swiperData env) ''title'',
            isError = False\<rparr>))
      else if kind = ''linkedvideo'' then
        (if \<not> truthy (videoData env)
         then Inr (Single (pleaseItem media ''Please upload a video link to view''))
         else Inr (Single
           \<lparr>item_url = field (videoData env) ''url'',
            item_text = field (videoData env) ''text'',
            item_title = field (videoData env) ''title'',
            isError = False\<rparr>))
      else
        (case http_get env (url media) of
           Inl e \<Rightarrow> Inl e
         | Inr data \<Rightarrow>
             (if kind = ''seeclickfix-311'' then map_sum id Items (seeclickfix311 data)
              else if kind \<in> set [''film-scouting'', ''repo'', ''videos'', ''feedview'']
              then otherFeeds env kind data
              else map_sum id Items (defaultFeed data))))"

text \<open>The three messages the \<open>catch\<close> words itself, and the one for another status.\<close>

definition rateLimitMessage :: string where
  "rateLimitMessage =
     ''NASA API rate limit exceeded (429). Please use your own API key for more requests. See https://api.nasa.gov/ for details.''"

definition badRequestMessage :: string where
  "badRequestMessage = ''Bad request (400): Please check your API key or feed URL.''"

definition unknownErrorMessage :: string where
  "unknownErrorMessage = ''An unknown error occurred.''"

definition statusMessage :: "nat \<Rightarrow> string" where
  "statusMessage status = ''Request failed with status code '' @ show_nat status"

text \<open>
  \<open>errorMessage\<close> as the \<open>catch\<close> computes it: by the status when the error has a
  response, else the error's own message when it has one, else the unknown-error text.
\<close>

definition errorMessage :: "js_error \<Rightarrow> string" where
  "errorMessage e =
     (case err_status e of
        Some status \<Rightarrow>
          (if status = 429 then rateLimitMessage
           else if status = 400 then badRequestMessage
           else statusMessage status)
      | None \<Rightarrow> (if err_message e \<noteq> [] then err_message e else unknownErrorMessage))"

text \<open>
  An error reaches the \<open>catch\<close> with the wording of its source: axios words a failed
  request (\<open>Network Error\<close>, \<open>Request failed with status code N\<close>) and the engine a
  \<open>TypeError\<close>. \<open>carriesLoaderText\<close> holds of an error whose own message is one of the two
  texts the \<open>catch\<close> writes for a status.
\<close>

definition carriesLoaderText :: "js_error \<Rightarrow> bool" where
  "carriesLoaderText e = (err_message e \<in> {rateLimitMessage, badRequestMessage})"

text \<open>The array the \<open>catch\<close> returns.\<close>

definition fetchMediaCatch :: "feed_entry \<Rightarrow> js_error \<Rightarrow> media_item list" where
  "fetchMediaCatch media e =
     [\<lparr>item_url = JNull, item_text = JStr (''Error: '' @ errorMessage e),
       item_title = JStr (''Failed to load '' @ title media), isError = True\<rparr>]"

definition fetchMediaFromAPI :: "fetch_env \<Rightarrow> feed_entry \<Rightarrow> fetched" where
  "fetchMediaFromAPI env media =
     (case fetchMediaTry env media of
        Inl e \<Rightarrow> Items (fetchMediaCatch media e)
      | Inr r \<Rightarrow> r)"

text \<open>
  \<open>loadFeed\<close>, the list it stores under \<open>media.title\<close>. A URL with a pipe is split,
  trimmed and filtered for non-empty pieces; each piece is fetched with a copy of the feed
  entry, an array result is concatenated to the list and a single object is pushed. A URL
  without pipe is fetched as it is, a single object wrapped into an array.
\<close>

definition asArray :: "fetched \<Rightarrow> media_item list" where
  "asArray r = (case r of Items xs \<Rightarrow> xs | Single x \<Rightarrow> [x])"

definition pipeUrls :: "string \<Rightarrow> string list" where
  "pipeUrls u = filter (\<lambda>p. p \<noteq> []) (map js_trim (js_split CHR ''|'' u))"

definition loadFeedItems :: "fetch_env \<Rightarrow> feed_entry \<Rightarrow> media_item list" where
  "loadFeedItems env media =
     (if url media \<noteq> [] \<and> js_includes (url media) ''|''
      then foldl (\<lambda>mediaItems u. mediaItems @ asArray (fetchMediaFromAPI env (media\<lparr>url := u\<rparr>)))
             [] (pipeUrls (url media))
      else asArray (fetchMediaFromAPI env media))"

definition loadFeed ::
  "fetch_env \<Rightarrow> feed_entry \<Rightarrow> (string \<rightharpoonup> media_item list) \<Rightarrow> (string \<rightharpoonup> media_item list)" where
  "loadFeed env media listofMedia = listofMedia(title media \<mapsto> loadFeedItems env media)"

text \<open>Whether the cursor points into the selected feed's item list.\<close>

definition cursorInBounds :: "player \<Rightarrow> bool" where
  "cursorInBounds st =
     (case currentMediaIndex st of
        Num i \<Rightarrow> 0 \<le> i \<and> i < int (length (selectedMediaList st))
      | NotFinite \<Rightarrow> False)"

section \<open>The hash router of \<open>VideoPlayer\<close> (Context.jsx)\<close>

text \<open>
  The fragment is percent-encoded text. In this section a string stands for its UTF-8
  encoding (for ASCII text, the text itself), which is what percent-encoding works on; the
  browser functions below are modelled from their specifications (ECMAScript and the
  WHATWG URL standard) for well-formed UTF-8.
\<close>

definition hex_digit :: "nat \<Rightarrow> char" where
  "hex_digit n = ''0123456789ABCDEF'' ! n"

definition hex_value :: "char \<Rightarrow> nat option" where
  "hex_value c =
     map_of (zip ''0123456789ABCDEFabcdef''
               [0, 1, 2, 3, 4, 5, 6, 7, 8, 9, 10, 11, 12, 13, 14, 15, 10, 11, 12, 13, 14, 15]) c"

definition percent_encode_byte :: "char \<Rightarrow> string" where
  "percent_encode_byte c =
     [CHR ''%'', hex_digit (of_char c div 16), hex_digit (of_char c mod 16)]"

text \<open>
  \<open>encodeURIComponent\<close>: every byte is escaped but the letters, the digits and
  \<open>- _ . ! ~ * ' ( )\<close>.
\<close>

definition uri_unreserved :: "char \<Rightarrow> bool" where
  "uri_unreserved c =
     (c \<in> set (''ABCDEFGHIJKLMNOPQRSTUVWXYZabcdefghijklmnopqrstuvwxyz0123456789-_.!~*()''
                @ [CHR 0x27]))"

definition uri_encode_char :: "char \<Rightarrow> string" where
  "uri_encode_char c = (if uri_unreserved c then [c] else percent_encode_byte c)"

definition encodeURIComponent :: "string \<Rightarrow> string" where
  "encodeURIComponent s = concat (map uri_encode_char s)"

text \<open>
  The serializer of \<open>URLSearchParams\<close>: a space becomes \<open>+\<close>, and every other byte is
  escaped but the letters, the digits and \<open>* - . _\<close>.
\<close>

definition form_safe :: "char \<Rightarrow> bool" where
  "form_safe c =
     (c \<in> set ''ABCDEFGHIJKLMNOPQRSTUVWXYZabcdefghijklmnopqrstuvwxyz0123456789*-._'')"

definition form_encode_char :: "char \<Rightarrow> string" where
  "form_encode_char c =
     (if c = CHR '' '' then ''+'' else if form_safe c then [c] else percent_encode_byte c)"

definition form_encode :: "string \<Rightarrow> string" where
  "form_encode s = concat (map form_encode_char s)"

text \<open>
  Percent-decoding: \<open>%\<close> followed by two hexadecimal digits is the byte of that value;
  any other character, a lone \<open>%\<close> included, stands for itself.
\<close>

fun percent_decode :: "string \<Rightarrow> string" where
  "percent_decode (c # h # l # rest) =
     (if c = CHR ''%'' then
        (case (hex_value h, hex_value l) of
           (Some a, Some b) \<Rightarrow> char_of (16 * a + b) # percent_decode rest
         | _ \<Rightarrow> c # percent_decode (h # l # rest))
      else c # percent_decode (h # l # rest))"
| "percent_decode (c # cs) = c # percent_decode cs"
| "percent_decode [] = []"

definition plus_to_space :: "string \<Rightarrow> string" where
  "plus_to_space s = map (\<lambda>c. if c = CHR ''+'' then CHR '' '' else c) s"

definition form_decode :: "string \<Rightarrow> string" where
  "form_decode s = percent_decode (plus_to_space s)"

text \<open>
  \<open>new URLSearchParams(init)\<close> for a string: a leading \<open>?\<close> is dropped, the rest is split
  at \<open>&\<close>, empty pieces are skipped, and each piece is a name and a value separated by its
  first \<open>=\<close> (the value is empty when there is none), both decoded. The result is the list
  of pairs, in order.
\<close>

definition usp_pair :: "string \<Rightarrow> string \<times> string" where
  "usp_pair piece =
     (case split_at_first ''='' piece of
        None \<Rightarrow> (form_decode piece, [])
      | Some (name, val) \<Rightarrow> (form_decode name, form_decode val))"

definition usp_parse :: "string \<Rightarrow> (string \<times> string) list" where
  "usp_parse init =
     map usp_pair
       (filter (\<lambda>piece. piece \<noteq> [])
          (js_split CHR ''&'' (if prefix ''?'' init then tl init else init)))"

text \<open>\<open>params.get(name)\<close>: the value of the first pair of that name, \<open>None\<close> for \<open>null\<close>.\<close>

definition usp_get :: "(string \<times> string) list \<Rightarrow> string \<Rightarrow> string option" where
  "usp_get params name = map_of params name"

text \<open>
  \<open>params.set(name, value)\<close>: the first pair of that name takes the value and the other
  pairs of that name are removed; without such a pair, the pair is appended.
\<close>

fun usp_set :: "string \<Rightarrow> string \<Rightarrow> (string \<times> string) list \<Rightarrow> (string \<times> string) list" where
  "usp_set name val [] = [(name, val)]"
| "usp_set name val (p # ps) =
     (if fst p = name then (name, val) # filter (\<lambda>q. fst q \<noteq> name) ps
      else p # usp_set name val ps)"

text \<open>\<open>params.toString()\<close>: the pairs as \<open>name=value\<close>, encoded, joined by \<open>&\<close>.\<close>

fun join_with :: "string \<Rightarrow> string list \<Rightarrow> string" where
  "join_with sep [] = []"
| "join_with sep [x] = x"
| "join_with sep (x # y # ys) = x @ sep @ join_with sep (y # ys)"

definition usp_toString :: "(string \<times> string) list \<Rightarrow> string" where
  "usp_toString params =
     join_with ''&'' (map (\<lambda>(name, val). form_encode name @ ''='' @ form_encode val) params)"

text \<open>
  An integer in a template literal (JavaScript prints an integer below \<open>10^21\<close> in absolute
  value in decimal).
\<close>

definition show_int :: "int \<Rightarrow> string" where
  "show_int i = (if i < 0 then ''-'' @ show_nat (nat (- i)) else show_nat (nat i))"

text \<open>
  \<open>parseInt(s, 10)\<close>: leading white space is skipped, a sign is read, and the digits that
  follow are the value; \<open>None\<close> is \<open>NaN\<close>, the result when no digit follows. \<open>parseInt\<close> of
  \<open>null\<close> is \<open>NaN\<close> as well.
\<close>

definition parseInt10 :: "string \<Rightarrow> int option" where
  "parseInt10 s =
     (let t = dropWhile is_space s;
          negative = prefix ''-'' t;
          body = (if prefix ''-'' t \<or> prefix ''+'' t then tl t else t);
          digits = takeWhile is_digit body
      in if digits = [] then None
         else Some ((if negative then - 1 else 1) * int (decimal_value digits)))"

text \<open>
  \<open>parseHash\<close>: \<open>feed\<close> is \<open>params.get("feed") || ""\<close> and \<open>ref\<close> is
  \<open>parseInt(params.get("ref"), 10) || 0\<close>, read from the fragment without its \<open>#\<close>.
\<close>

definition parseHash :: "string \<Rightarrow> string \<times> int" where
  "parseHash hash =
     (let params = usp_parse (drop 1 hash) in
      (case usp_get params ''feed'' of Some f \<Rightarrow> f | None \<Rightarrow> [],
       case usp_get params ''ref'' of
         Some r \<Rightarrow> (case parseInt10 r of Some i \<Rightarrow> i | None \<Rightarrow> 0)
       | None \<Rightarrow> 0))"

text \<open>
  \<open>updateURLHash\<close> of the older copy of the player: the fragment becomes
  \<open>#feed=<feed>&ref=<ref>\<close>, whatever it was.
\<close>

definition updateURLHash_plain :: "string \<Rightarrow> int \<Rightarrow> string \<Rightarrow> string" where
  "updateURLHash_plain feedKey ref hash =
     ''#feed='' @ encodeURIComponent feedKey @ ''&ref='' @ show_int ref"

text \<open>
  \<open>updateURLHash\<close> of the newer copy: the pairs of the old fragment other than \<open>feed\<close> and
  \<open>ref\<close> are collected with \<open>otherParams.set(key, value)\<close> and appended. The result is the
  new value of \<open>window.location.hash\<close>: the string written holds no character the fragment
  setter would change.
\<close>

definition otherParams :: "(string \<times> string) list \<Rightarrow> (string \<times> string) list" where
  "otherParams existingParams =
     fold (\<lambda>(key, val) acc. if key \<noteq> ''feed'' \<and> key \<noteq> ''ref'' then usp_set key val acc else acc)
       existingParams []"

definition updateURLHash :: "string \<Rightarrow> int \<Rightarrow> string \<Rightarrow> string" where
  "updateURLHash feedKey ref hash =
     (let others = usp_toString (otherParams (usp_parse (drop 1 hash)));
          h = ''#feed='' @ encodeURIComponent feedKey @ ''&ref='' @ show_int ref
      in if others \<noteq> [] then h @ ''&'' @ others else h)"

section \<open>Sample data\<close>

text \<open>Two feeds, and three items of a loaded feed.\<close>

definition nasaFeed :: feed_entry where
  "nasaFeed =
     \<lparr>feed = ''nasa'', title = ''NASA'', url = ''https://api.nasa.gov/planetary/apod''\<rparr>"

definition civicFeed :: feed_entry where
  "civicFeed =
     \<lparr>feed = ''seeclickfix-311'', title = ''SeeClickFix'',
      url = ''https://seeclickfix.com/api/v2/issues''\<rparr>"

definition sampleFeeds :: "feed_entry list" where
  "sampleFeeds = [nasaFeed, civicFeed]"

definition sampleItems :: "media_item list" where
  "sampleItems =
     [\<lparr>item_url = JStr ''a.jpg'', item_text = JStr ''first'', item_title = JStr ''A'', isError = False\<rparr>,
      \<lparr>item_url = JStr ''b.jpg'', item_text = JStr ''second'', item_title = JStr ''B'', isError = False\<rparr>,
      \<lparr>item_url = JStr ''c.jpg'', item_text = JStr ''third'', item_title = JStr ''C'', isError = False\<rparr>]"

definition samplePlayer :: "int \<Rightarrow> player" where
  "samplePlayer i =
     \<lparr>mediaList = sampleFeeds, index = 0, selectedMediaList = sampleItems,
      currentMediaIndex = Num i, currentMedia = js_index sampleItems (Num i)\<rparr>"

text \<open>Feed responses: two NASA items, two civic issues (one without \<open>media\<close>), and a
  server that answers three URLs and rejects any other with status 429.\<close>

definition moonItem :: json where
  "moonItem = JObj [(''title'', JStr ''Moon''), (''url'', JStr ''https://img/moon.jpg''),
                    (''explanation'', JStr ''The Moon'')]"

definition marsItem :: json where
  "marsItem = JObj [(''title'', JStr ''Mars''), (''hdurl'', JStr ''https://img/mars.jpg'')]"

definition issueWithMedia :: json where
  "issueWithMedia =
     JObj [(''summary'', JStr ''Graffiti''), (''description'', JStr ''On the wall''),
           (''media'', JObj [(''image_full'', JNull),
                             (''representative_image_url'', JStr ''https://img/graffiti.png'')])]"

definition issueNoMedia :: json where
  "issueNoMedia = JObj [(''summary'', JStr ''Pothole''), (''description'', JStr ''Deep'')]"

definition sampleGet :: "string \<Rightarrow> js_error + json" where
  "sampleGet u =
     (if u = ''https://api.nasa.gov/a'' then Inr (JArr [moonItem])
      else if u = ''https://api.nasa.gov/c'' then Inr (JArr [marsItem, moonItem])
      else if u = ''https://seeclickfix.com/api/v2/issues''
      then Inr (JObj [(''issues'', JArr [issueWithMedia, issueNoMedia])])
      else Inl (JsError (Some 429) ''Request failed with status code 429''))"

definition sampleEnv :: fetch_env where
  "sampleEnv =
     \<lparr>http_get = sampleGet, swiperData = JNull, videoData = JNull,
      otherFeeds = (\<lambda>kind data. Inr (Items []))\<rparr>"

definition pipeFeed :: feed_entry where
  "pipeFeed =
     \<lparr>feed = ''nasa'', title = ''NASA'',
      url = ''https://api.nasa.gov/a | https://api.nasa.gov/b|https://api.nasa.gov/c''\<rparr>"

definition moonMedia :: media_item where
  "moonMedia = \<lparr>item_url = JStr ''https://img/moon.jpg'', item_text = JStr ''The Moon'',
                 item_title = JStr ''Moon'', isError = False\<rparr>"

definition marsMedia :: media_item where
  "marsMedia = \<lparr>item_url = JStr ''https://img/mars.jpg'', item_text = noDescription,
                 item_title = JStr ''Mars'', isError = False\<rparr>"

definition rateLimitItem :: media_item where
  "rateLimitItem = \<lparr>item_url = JNull, item_text = JStr (''Error: '' @ rateLimitMessage),
                     item_title = JStr ''Failed to load NASA'', isError = True\<rparr>"

definition nasaMoon :: json where
  "nasaMoon =
     JObj [(''title'', JStr ''Moon''), (''description'', JStr ''The Moon''),
           (''url'', JStr ''https://img/moon.jpg''), (''date'', JUndefined),
           (''media_type'', JUndefined), (''source'', JStr ''NASA APOD'')]"

definition nasaMars :: json where
  "nasaMars =
     JObj [(''title'', JStr ''Mars''), (''description'', JUndefined),
           (''url'', JUndefined), (''date'', JUndefined),
           (''media_type'', JUndefined), (''source'', JStr ''NASA APOD'')]"

text \<open>A server that rejects every request with the given status.\<close>

definition failingGet :: "nat \<Rightarrow> string \<Rightarrow> js_error + json" where
  "failingGet status u = Inl (JsError (Some status) (statusMessage status))"

definition failingEnv :: "nat \<Rightarrow> fetch_env" where
  "failingEnv status =
     \<lparr>http_get = failingGet status, swiperData = JNull, videoData = JNull,
      otherFeeds = (\<lambda>kind data. Inr (Items []))\<rparr>"

text \<open>A request that gets no response: axios rejects with \<open>Network Error\<close>.\<close>

definition networkError :: js_error where
  "networkError = JsError None ''Network Error''"

definition offlineEnv :: fetch_env where
  "offlineEnv =
     \<lparr>http_get = (\<lambda>u. Inl networkError), swiperData = JNull, videoData = JNull,
      otherFeeds = (\<lambda>kind data. Inr (Items []))\<rparr>"

text \<open>
  Spreadsheet URLs: an edit link, a published CSV link, a link already in the \<open>gviz\<close>
  form and one without document identifier; and two CSV bodies, the second with padded
  headers, a blank cell and a missing one.
\<close>

definition sheetEditUrl :: string where
  "sheetEditUrl =
     ''https://docs.google.com/spreadsheets/d/1jQTlXWom-pXvyP9zuTcbdluyvpb43hu2h7anxhF5qlQ/edit?usp=sharing''"

definition sheetPubUrl :: string where
  "sheetPubUrl =
     ''https://docs.google.com/spreadsheets/d/e/2PACX-1vSxfv7lxikjrmro3EJYGE_134vm5HdDszZKt4uKswHhsNJ_-afSaG9RoA4oeNV656r4mTuG3wTu38pM/pub?gid=889452679&single=true&output=csv''"

definition sheetGvizUrl :: string where
  "sheetGvizUrl = ''https://docs.google.com/spreadsheets/d/1jQTlXWom/gviz/tq?tqx=out:csv''"

definition sheetNoIdUrl :: string where
  "sheetNoIdUrl = ''https://docs.google.com/spreadsheets/u/0/''"

definition sampleCsv :: string where
  "sampleCsv =
     ''title,url'' @ [CHR 0x0A] @ ''A,http://img/a.jpg'' @ [CHR 0x0A] @ ''B,http://img/b.jpg''"

definition raggedCsv :: string where
  "raggedCsv = ''title, url '' @ [CHR 0x0A] @ ''A,  '' @ [CHR 0x0A] @ ''B''"

definition csvGet :: "string \<Rightarrow> js_error + json" where
  "csvGet u = Inr (JStr sampleCsv)"

text \<open>
  A SeeClickFix URL with both placeholders, a browser that stores a longitude only, and a
  server that answers the substituted URL with seven issues, the second without image.
\<close>

definition issuesUrl :: string where
  "issuesUrl = ''https://seeclickfix.com/api/v2/issues?lat={latitude}&lng={longitude}''"

definition imageIssue :: "int \<Rightarrow> json" where
  "imageIssue n = JObj [(''id'', JNum n), (''media'', JObj [(''image_full'', JStr ''i.png'')])]"

definition plainIssue :: "int \<Rightarrow> json" where
  "plainIssue n =
     JObj [(''id'', JNum n),
           (''media'', JObj [(''image_full'', JNull), (''representative_image_url'', JNull)])]"

definition sevenIssues :: "json list" where
  "sevenIssues =
     [imageIssue 1, plainIssue 2, imageIssue 3, imageIssue 4, imageIssue 5, imageIssue 6,
      imageIssue 7]"

definition gridGet :: "string \<Rightarrow> js_error + json" where
  "gridGet u =
     (if u = ''https://seeclickfix.com/api/v2/issues?lat=41.307&lng=-73.5''
      then Inr (JObj [(''issues'', JArr sevenIssues)])
      else Inl (JsError None ''Network Error''))"

definition gridEnv :: grid_env where
  "gridEnv = \<lparr>grid_get = gridGet, latitude = None, longitude = Some ''-73.5''\<rparr>"

text \<open>A fragment with a parameter of the host page, and one with a repeated parameter.\<close>

definition settingsHash :: string where
  "settingsHash = ''#feed=nasa&ref=0&sidetab=settings''"

definition tagsHash :: string where
  "tagsHash = ''#feed=nasa&ref=0&tag=a%20b&tag=c''"

section \<open>Properties of the playback cursor\<close>

lemma handleNext_index:
  "currentMediaIndex (handleNext st) =
     js_rem (js_add (currentMediaIndex st) (Num 1)) (Num (int (length (mediaList st))))"
  by (simp add: handleNext_def)

text \<open>
  C1. Advance-next and advance-prev are claimed to step the item index by one modulo the
  item count of the selected feed. The code takes the modulus from \<open>mediaList\<close>, the list
  of feeds: with two feeds and a three-item feed selected, advance-next at index 1 yields
  0 where the claim gives 2, and advance-prev at index 0 yields 1 where the claim gives 2,
  so the third item is never reached.
\<close>

theorem handleNext_wraps_at_feed_count:
  "currentMediaIndex (handleNext (samplePlayer 1)) = Num 0
   \<and> currentMediaIndex (handlePrev (samplePlayer 0)) = Num 1
   \<and> length (selectedMediaList (samplePlayer 1)) = 3
   \<and> length (mediaList (samplePlayer 1)) = 2
   \<and> (1 + 1) mod int (length (selectedMediaList (samplePlayer 1))) = 2
   \<and> (0 - 1) mod int (length (selectedMediaList (samplePlayer 0))) = 2"
  by (simp add: handleNext_def handlePrev_def samplePlayer_def sampleFeeds_def sampleItems_def)

lemma targetSlide_in_range:
  assumes "0 \<le> clickX" "clickX < progressWidth" "selectedMediaList st \<noteq> []"
  shows "\<exists>k. targetSlide clickX progressWidth st = Num k \<and> 0 \<le> k \<and> k < int (totalSlides st)"
proof -
  let ?n = "totalSlides st"
  let ?r = "clickX / progressWidth"
  have w: "0 < progressWidth" using assms by simp
  have n: "0 < ?n" using assms(3) by (simp add: totalSlides_def)
  have r0: "0 \<le> ?r" using assms(1) w by simp
  have r1: "?r < 1" using assms(2) w by simp
  have lo: "0 \<le> ?r * of_nat ?n" using r0 by (intro mult_nonneg_nonneg) simp_all
  have "?r * of_nat ?n < 1 * of_nat ?n" using r1 n by (intro mult_strict_right_mono) simp_all
  then have hi: "?r * of_nat ?n < of_nat ?n" by simp
  have "0 \<le> \<lfloor>?r * of_nat ?n\<rfloor>" using lo by simp
  moreover have "\<lfloor>?r * of_nat ?n\<rfloor> < int ?n" using hi by (simp add: floor_less_iff)
  ultimately show ?thesis using w by (simp add: targetSlide_def)
qed

lemma totalSlides_le: "totalSlides st \<le> length (selectedMediaList st)"
  by (simp add: totalSlides_def)

text \<open>
  C9 (as amended). \<open>moveToSlide\<close> stores the index it is given and checks nothing, so
  an index outside the item list is neither rejected nor clamped there. What keeps the
  cursor in range is what its callers pass: a progress point passes its own position,
  which is below the item count; a click on the bar at a position \<open>0 \<le> clickX <
  progressWidth\<close> over a non-empty list passes a target below \<open>min(count, 7)\<close>; and
  an index read from the fragment is adopted only if it is non-negative and addresses an
  item, the cursor staying as it was otherwise.
\<close>

theorem seek_index_unchecked:
  "currentMediaIndex (moveToSlide i st) = i
   \<and> selectedMediaList (moveToSlide i st) = selectedMediaList st
   \<and> (\<forall>p \<in> set (progressPoints st). cursorInBounds (clickProgressPoint p st))
   \<and> (0 \<le> clickX \<and> clickX < progressWidth \<and> selectedMediaList st \<noteq> []
        \<longrightarrow> cursorInBounds (handleProgressBarClick clickX progressWidth st))
   \<and> (cursorInBounds st \<longrightarrow> cursorInBounds (adoptHashRef feedPos sel ref st))"
proof (intro conjI ballI impI)
  show "currentMediaIndex (moveToSlide i st) = i" by (simp add: moveToSlide_def)
  show "selectedMediaList (moveToSlide i st) = selectedMediaList st" by (simp add: moveToSlide_def)
next
  fix p assume "p \<in> set (progressPoints st)"
  then show "cursorInBounds (clickProgressPoint p st)"
    by (simp add: progressPoints_def clickProgressPoint_def moveToSlide_def cursorInBounds_def)
next
  assume a: "0 \<le> clickX \<and> clickX < progressWidth \<and> selectedMediaList st \<noteq> []"
  then obtain k where k: "targetSlide clickX progressWidth st = Num k" "0 \<le> k" "k < int (totalSlides st)"
    using targetSlide_in_range by blast
  then show "cursorInBounds (handleProgressBarClick clickX progressWidth st)"
    using totalSlides_le [of st]
    by (simp add: handleProgressBarClick_def moveToSlide_def cursorInBounds_def)
next
  assume "cursorInBounds st"
  then show "cursorInBounds (adoptHashRef feedPos sel ref st)"
    by (simp add: adoptHashRef_def cursorInBounds_def split: option.splits if_splits)
qed

text \<open>The amended C9 at the sample player: a point, a click at the middle, a fragment index 7.\<close>

theorem seek_index_unchecked_witness:
  "currentMediaIndex (moveToSlide (Num 2) (samplePlayer 0)) = Num 2
   \<and> 2 \<in> set (progressPoints (samplePlayer 0))
   \<and> cursorInBounds (clickProgressPoint 2 (samplePlayer 0))
   \<and> (0::rat) \<le> 150 \<and> (150::rat) < 300 \<and> selectedMediaList (samplePlayer 0) \<noteq> []
   \<and> cursorInBounds (handleProgressBarClick 150 300 (samplePlayer 0))
   \<and> currentMediaIndex (handleProgressBarClick 150 300 (samplePlayer 0)) = Num 1
   \<and> cursorInBounds (samplePlayer 0)
   \<and> cursorInBounds (adoptHashRef 1 sampleItems 7 (samplePlayer 0))
   \<and> adoptHashRef 1 sampleItems 7 (samplePlayer 0) = samplePlayer 0"
  using seek_index_unchecked [of "Num 2" "samplePlayer 0" 150 300 1 sampleItems 7]
  by (simp add: samplePlayer_def sampleItems_def progressPoints_def adoptHashRef_def
      handleProgressBarClick_def moveToSlide_def targetSlide_def totalSlides_def cursorInBounds_def
      clickProgressPoint_def floor_eq_iff)

text \<open>
  C9 as stated fails: on three items \<open>moveToSlide(5)\<close> leaves the index at 5, the item
  read is \<open>undefined\<close>, \<open>moveToSlide(-1)\<close> leaves it at -1, and a click at the right
  edge of the bar yields index 3.
\<close>

theorem moveToSlide_out_of_range_counterexample:
  "currentMediaIndex (moveToSlide (Num 5) (samplePlayer 0)) = Num 5
   \<and> length (selectedMediaList (moveToSlide (Num 5) (samplePlayer 0))) = 3
   \<and> \<not> cursorInBounds (moveToSlide (Num 5) (samplePlayer 0))
   \<and> currentMedia (syncCurrentMedia (moveToSlide (Num 5) (samplePlayer 0))) = None
   \<and> currentMediaIndex (moveToSlide (Num (- 1)) (samplePlayer 0)) = Num (- 1)
   \<and> currentMediaIndex (handleProgressBarClick 300 300 (samplePlayer 0)) = Num 3"
  by (simp add: samplePlayer_def sampleItems_def moveToSlide_def cursorInBounds_def
      syncCurrentMedia_def handleProgressBarClick_def targetSlide_def totalSlides_def)

section \<open>Properties of the loader of \<open>VideoPlayer\<close>\<close>

lemmas str_defs = js_lower_def js_trim_def is_space_def lower_char_def

lemma messages_distinct:
  "distinct [rateLimitMessage, badRequestMessage, statusMessage status, unknownErrorMessage]"
  by (simp add: rateLimitMessage_def badRequestMessage_def statusMessage_def unknownErrorMessage_def)

lemma fetchMediaTry_get_fails:
  assumes "js_lower (js_trim (feed media)) \<notin> {''swiper'', ''linkedvideo''}"
    and "http_get env (url media) = Inl e"
  shows "fetchMediaTry env media = Inl e"
  using assms by (simp add: fetchMediaTry_def Let_def)

lemma engine_errors_worded:
  "\<not> carriesLoaderText (cannot_read v k) \<and> \<not> carriesLoaderText (not_a_function what)"
proof -
  have "what @ '' is not a function'' \<noteq> rateLimitMessage"
  proof
    assume "what @ '' is not a function'' = rateLimitMessage"
    then have "last (what @ '' is not a function'') = last rateLimitMessage" by (rule arg_cong)
    then show False by (simp add: rateLimitMessage_def)
  qed
  moreover have "what @ '' is not a function'' \<noteq> badRequestMessage"
  proof
    assume "what @ '' is not a function'' = badRequestMessage"
    then have "last (what @ '' is not a function'') = last badRequestMessage" by (rule arg_cong)
    then show False by (simp add: badRequestMessage_def)
  qed
  ultimately show ?thesis
    by (simp add: carriesLoaderText_def cannot_read_def not_a_function_def
        rateLimitMessage_def badRequestMessage_def)
qed

lemma other_failure_message:
  assumes "(err_status e = Some status \<and> status \<noteq> 429 \<and> status \<noteq> 400)
           \<or> (err_status e = None \<and> \<not> carriesLoaderText e)"
  shows "errorMessage e \<noteq> rateLimitMessage \<and> errorMessage e \<noteq> badRequestMessage"
  using assms
proof
  assume "err_status e = Some status \<and> status \<noteq> 429 \<and> status \<noteq> 400"
  then have "errorMessage e = statusMessage status" by (simp add: errorMessage_def)
  then show ?thesis using messages_distinct [of status] by auto
next
  assume a: "err_status e = None \<and> \<not> carriesLoaderText e"
  show ?thesis
  proof (cases "err_message e = []")
    case True
    then have "errorMessage e = unknownErrorMessage" using a by (simp add: errorMessage_def)
    then show ?thesis using messages_distinct [of 0] by auto
  next
    case False
    then have "errorMessage e = err_message e" using a by (simp add: errorMessage_def)
    then show ?thesis using a by (simp add: carriesLoaderText_def)
  qed
qed

text \<open>
  C2. A failed fetch makes \<open>fetchMediaFromAPI\<close> return exactly one item, with \<open>isError\<close>
  true, a \<open>null\<close> url and the text \<open>Error:\<close> followed by the message. Status 429 gives the
  rate-limit message, status 400 the bad-request message, and any other failure a message
  that is neither: \<open>Request failed with status code N\<close> for another status, and for an
  error without response its own message, or the unknown-error text when it has none. The
  own message of an error is the wording of its source, not one of the two texts the
  \<open>catch\<close> writes for a status; the errors the engine raises in the adapters are of that
  kind. The messages the loader words itself are pairwise distinct.
\<close>

theorem fetch_failure_item:
  "(js_lower (js_trim (feed media)) \<notin> {''swiper'', ''linkedvideo''}
      \<and> http_get env (url media) = Inl e \<longrightarrow>
      fetchMediaFromAPI env media = Items (fetchMediaCatch media e))
   \<and> (\<exists>item. fetchMediaCatch media e = [item] \<and> isError item \<and> item_url item = JNull
        \<and> item_text item = JStr (''Error: '' @ errorMessage e))
   \<and> errorMessage (JsError (Some 429) m) = rateLimitMessage
   \<and> errorMessage (JsError (Some 400) m) = badRequestMessage
   \<and> (status \<noteq> 429 \<and> status \<noteq> 400 \<longrightarrow>
        errorMessage (JsError (Some status) m) = statusMessage status)
   \<and> errorMessage (JsError None m) = (if m \<noteq> [] then m else unknownErrorMessage)
   \<and> distinct [rateLimitMessage, badRequestMessage, statusMessage status, unknownErrorMessage]
   \<and> ((err_status e = Some status \<and> status \<noteq> 429 \<and> status \<noteq> 400)
        \<or> (err_status e = None \<and> \<not> carriesLoaderText e) \<longrightarrow>
        errorMessage e \<noteq> rateLimitMessage \<and> errorMessage e \<noteq> badRequestMessage)
   \<and> \<not> carriesLoaderText (cannot_read v k) \<and> \<not> carriesLoaderText (not_a_function what)"
proof -
  have "js_lower (js_trim (feed media)) \<notin> {''swiper'', ''linkedvideo''}
      \<and> http_get env (url media) = Inl e \<longrightarrow>
      fetchMediaFromAPI env media = Items (fetchMediaCatch media e)"
    using fetchMediaTry_get_fails [of media env e] by (simp add: fetchMediaFromAPI_def)
  moreover have "\<exists>item. fetchMediaCatch media e = [item] \<and> isError item \<and> item_url item = JNull
        \<and> item_text item = JStr (''Error: '' @ errorMessage e)"
    by (simp add: fetchMediaCatch_def)
  moreover have "errorMessage (JsError (Some 429) m) = rateLimitMessage"
    "errorMessage (JsError (Some 400) m) = badRequestMessage"
    "status \<noteq> 429 \<and> status \<noteq> 400 \<longrightarrow>
        errorMessage (JsError (Some status) m) = statusMessage status"
    "errorMessage (JsError None m) = (if m \<noteq> [] then m else unknownErrorMessage)"
    by (simp_all add: errorMessage_def)
  moreover have "(err_status e = Some status \<and> status \<noteq> 429 \<and> status \<noteq> 400)
        \<or> (err_status e = None \<and> \<not> carriesLoaderText e) \<longrightarrow>
        errorMessage e \<noteq> rateLimitMessage \<and> errorMessage e \<noteq> badRequestMessage"
    using other_failure_message [of e status] by blast
  ultimately show ?thesis
    using messages_distinct [of status] engine_errors_worded [of v k what] by blast
qed

text \<open>
  C2 at a feed whose server answers 503, and at the same feed when the request gets no
  response.
\<close>

theorem fetch_failure_item_witness:
  "js_lower (js_trim (feed nasaFeed)) \<notin> {''swiper'', ''linkedvideo''}
   \<and> http_get (failingEnv 503) (url nasaFeed) = Inl (JsError (Some 503) (statusMessage 503))
   \<and> fetchMediaFromAPI (failingEnv 503) nasaFeed =
       Items [\<lparr>item_url = JNull,
               item_text = JStr ''Error: Request failed with status code 503'',
               item_title = JStr ''Failed to load NASA'', isError = True\<rparr>]
   \<and> (503::nat) \<noteq> 429 \<and> (503::nat) \<noteq> 400
   \<and> errorMessage (JsError (Some 503) []) = ''Request failed with status code 503''
   \<and> err_status (JsError (Some 503) (statusMessage 503)) = Some 503
   \<and> errorMessage (JsError (Some 503) (statusMessage 503)) \<noteq> rateLimitMessage
   \<and> errorMessage (JsError (Some 503) (statusMessage 503)) \<noteq> badRequestMessage
   \<and> http_get offlineEnv (url nasaFeed) = Inl networkError
   \<and> fetchMediaFromAPI offlineEnv nasaFeed =
       Items [\<lparr>item_url = JNull, item_text = JStr ''Error: Network Error'',
               item_title = JStr ''Failed to load NASA'', isError = True\<rparr>]
   \<and> err_status networkError = None \<and> \<not> carriesLoaderText networkError
   \<and> errorMessage networkError \<noteq> rateLimitMessage
   \<and> errorMessage networkError \<noteq> badRequestMessage"
proof -
  note T = fetch_failure_item [where media = nasaFeed and env = "failingEnv 503"
      and e = "JsError (Some 503) (statusMessage 503)" and m = "[]" and status = 503]
  note U = fetch_failure_item [where media = nasaFeed and env = offlineEnv
      and e = networkError and status = 503]
  have f: "js_lower (js_trim (feed nasaFeed)) \<notin> {''swiper'', ''linkedvideo''}"
    by (simp add: nasaFeed_def str_defs)
  have g: "http_get (failingEnv 503) (url nasaFeed) = Inl (JsError (Some 503) (statusMessage 503))"
    by (simp add: failingEnv_def failingGet_def)
  have h: "http_get offlineEnv (url nasaFeed) = Inl networkError"
    by (simp add: offlineEnv_def)
  have n: "err_status networkError = None" "\<not> carriesLoaderText networkError"
    by (simp_all add: networkError_def carriesLoaderText_def rateLimitMessage_def
        badRequestMessage_def)
  have s: "err_status (JsError (Some 503) (statusMessage 503)) = Some 503" by simp
  have 1: "fetchMediaFromAPI (failingEnv 503) nasaFeed =
      Items (fetchMediaCatch nasaFeed (JsError (Some 503) (statusMessage 503)))"
    using T f g by blast
  have 2: "fetchMediaFromAPI offlineEnv nasaFeed = Items (fetchMediaCatch nasaFeed networkError)"
    using U f h by blast
  have 3: "errorMessage (JsError (Some 503) []) = statusMessage 503"
    using T by simp
  have 4: "errorMessage (JsError (Some 503) (statusMessage 503)) \<noteq> rateLimitMessage
      \<and> errorMessage (JsError (Some 503) (statusMessage 503)) \<noteq> badRequestMessage"
    using T s by simp
  have 5: "errorMessage networkError \<noteq> rateLimitMessage
      \<and> errorMessage networkError \<noteq> badRequestMessage"
    using U n by blast
  have c1: "fetchMediaCatch nasaFeed (JsError (Some 503) (statusMessage 503)) =
       [\<lparr>item_url = JNull,
               item_text = JStr ''Error: Request failed with status code 503'',
               item_title = JStr ''Failed to load NASA'', isError = True\<rparr>]"
    by (simp add: fetchMediaCatch_def errorMessage_def statusMessage_def show_nat.simps nasaFeed_def)
  have c2: "fetchMediaCatch nasaFeed networkError =
       [\<lparr>item_url = JNull, item_text = JStr ''Error: Network Error'',
               item_title = JStr ''Failed to load NASA'', isError = True\<rparr>]"
    by (simp add: fetchMediaCatch_def errorMessage_def networkError_def nasaFeed_def)
  have c3: "statusMessage 503 = ''Request failed with status code 503''"
    by (simp add: statusMessage_def show_nat.simps)
  have a1: "fetchMediaFromAPI (failingEnv 503) nasaFeed =
       Items [\<lparr>item_url = JNull,
               item_text = JStr ''Error: Request failed with status code 503'',
               item_title = JStr ''Failed to load NASA'', isError = True\<rparr>]"
    by (simp only: 1 c1)
  have a2: "fetchMediaFromAPI offlineEnv nasaFeed =
       Items [\<lparr>item_url = JNull, item_text = JStr ''Error: Network Error'',
               item_title = JStr ''Failed to load NASA'', isError = True\<rparr>]"
    by (simp only: 2 c2)
  have a3: "errorMessage (JsError (Some 503) []) = ''Request failed with status code 503''"
    by (simp only: 3 c3)
  show ?thesis
    using f g h n s 4 5 a1 a2 a3 by simp
qed

lemma foldl_append_concat: "foldl (\<lambda>acc u. acc @ f u) a us = a @ concat (map f us)"
  by (induction us arbitrary: a) simp_all

lemma loadFeedItems_pipe:
  assumes "js_includes u ''|''"
  shows "loadFeedItems env (media\<lparr>url := u\<rparr>) =
           concat (map (\<lambda>p. asArray (fetchMediaFromAPI env (media\<lparr>url := p\<rparr>))) (pipeUrls u))"
proof -
  have "u \<noteq> []" using assms by auto
  then show ?thesis using assms by (simp add: loadFeedItems_def foldl_append_concat)
qed

lemma concat_map_cong_set: "(\<And>x. x \<in> set xs \<Longrightarrow> f x = g x) \<Longrightarrow> concat (map f xs) = concat (map g xs)"
  by (induction xs) simp_all

text \<open>
  C3 (as amended). When exactly one of the URLs of a feed fails, the other URLs are
  fetched all the same. In \<open>fetchFeeds\<close> of the card-grid player the failing URL contributes
  nothing: the aggregate is the concatenation of the other URLs' items, and its length
  their sum. In \<open>loadFeed\<close> of the video player the failing URL contributes its one
  placeholder item, at its place among the others: the length is the sum plus one.
\<close>

theorem partial_failure_aggregation:
  "(fetchFeedUrl get feedType feedFields u = Inl e
      \<and> (\<forall>v \<in> set (us1 @ us2). fetchFeedUrl get feedType feedFields v = Inr (ok v))
    \<longrightarrow> flattenedResults get feedType feedFields (us1 @ u # us2) = concat (map ok (us1 @ us2))
        \<and> length (flattenedResults get feedType feedFields (us1 @ u # us2))
            = sum_list (map (length \<circ> ok) (us1 @ us2)))
   \<and> (js_includes pu ''|'' \<and> pipeUrls pu = ps1 @ p # ps2
      \<and> fetchMediaTry env (media\<lparr>url := p\<rparr>) = Inl pe
      \<and> (\<forall>q \<in> set (ps1 @ ps2). fetchMediaTry env (media\<lparr>url := q\<rparr>) = Inr (Items (pok q)))
    \<longrightarrow> loadFeedItems env (media\<lparr>url := pu\<rparr>)
          = concat (map pok ps1) @ fetchMediaCatch (media\<lparr>url := p\<rparr>) pe @ concat (map pok ps2)
        \<and> length (loadFeedItems env (media\<lparr>url := pu\<rparr>))
            = sum_list (map (length \<circ> pok) (ps1 @ ps2)) + 1)"
proof (intro conjI impI)
  assume a: "fetchFeedUrl get feedType feedFields u = Inl e
      \<and> (\<forall>v \<in> set (us1 @ us2). fetchFeedUrl get feedType feedFields v = Inr (ok v))"
  have 1: "concat (map (fetchFeedUrlCaught get feedType feedFields) us1) = concat (map ok us1)"
    using a by (intro concat_map_cong_set) (simp add: fetchFeedUrlCaught_def)
  have 2: "concat (map (fetchFeedUrlCaught get feedType feedFields) us2) = concat (map ok us2)"
    using a by (intro concat_map_cong_set) (simp add: fetchFeedUrlCaught_def)
  have 3: "fetchFeedUrlCaught get feedType feedFields u = []"
    using a by (simp add: fetchFeedUrlCaught_def)
  show eq: "flattenedResults get feedType feedFields (us1 @ u # us2) = concat (map ok (us1 @ us2))"
    by (simp add: flattenedResults_def 1 2 3)
  show "length (flattenedResults get feedType feedFields (us1 @ u # us2))
            = sum_list (map (length \<circ> ok) (us1 @ us2))"
    by (simp add: eq length_concat)
next
  assume b: "js_includes pu ''|'' \<and> pipeUrls pu = ps1 @ p # ps2
      \<and> fetchMediaTry env (media\<lparr>url := p\<rparr>) = Inl pe
      \<and> (\<forall>q \<in> set (ps1 @ ps2). fetchMediaTry env (media\<lparr>url := q\<rparr>) = Inr (Items (pok q)))"
  let ?f = "\<lambda>q. asArray (fetchMediaFromAPI env (media\<lparr>url := q\<rparr>))"
  have 1: "concat (map ?f ps1) = concat (map pok ps1)"
    using b by (intro concat_map_cong_set) (simp add: fetchMediaFromAPI_def asArray_def)
  have 2: "concat (map ?f ps2) = concat (map pok ps2)"
    using b by (intro concat_map_cong_set) (simp add: fetchMediaFromAPI_def asArray_def)
  have 3: "?f p = fetchMediaCatch (media\<lparr>url := p\<rparr>) pe"
    using b by (simp add: fetchMediaFromAPI_def asArray_def)
  show eq: "loadFeedItems env (media\<lparr>url := pu\<rparr>)
          = concat (map pok ps1) @ fetchMediaCatch (media\<lparr>url := p\<rparr>) pe @ concat (map pok ps2)"
    using b by (simp add: loadFeedItems_pipe 1 2 3)
  show "length (loadFeedItems env (media\<lparr>url := pu\<rparr>))
            = sum_list (map (length \<circ> pok) (ps1 @ ps2)) + 1"
    by (simp add: eq length_concat fetchMediaCatch_def)
qed

lemma pipeUrls_pipeFeed:
  "pipeUrls (url pipeFeed) =
     [''https://api.nasa.gov/a'', ''https://api.nasa.gov/b'', ''https://api.nasa.gov/c'']"
  by (simp add: pipeFeed_def pipeUrls_def str_defs)

lemma fetchMediaTry_a:
  "fetchMediaTry sampleEnv (pipeFeed\<lparr>url := ''https://api.nasa.gov/a''\<rparr>) = Inr (Items [moonMedia])"
  by (simp add: fetchMediaTry_def pipeFeed_def sampleEnv_def sampleGet_def str_defs defaultFeed_def
      defaultItem_def moonItem_def moonMedia_def nullish_def js_or_def)

lemma fetchMediaTry_b:
  "fetchMediaTry sampleEnv (pipeFeed\<lparr>url := ''https://api.nasa.gov/b''\<rparr>) =
     Inl (JsError (Some 429) ''Request failed with status code 429'')"
  by (simp add: fetchMediaTry_def pipeFeed_def sampleEnv_def sampleGet_def str_defs)

lemma fetchMediaTry_c:
  "fetchMediaTry sampleEnv (pipeFeed\<lparr>url := ''https://api.nasa.gov/c''\<rparr>) =
     Inr (Items [marsMedia, moonMedia])"
  by (simp add: fetchMediaTry_def pipeFeed_def sampleEnv_def sampleGet_def str_defs defaultFeed_def
      defaultItem_def moonItem_def moonMedia_def marsItem_def marsMedia_def nullish_def js_or_def
      noDescription_def)

lemma fetchFeedUrl_a:
  "fetchFeedUrl sampleGet ''nasa'' [] ''https://api.nasa.gov/a'' = Inr [nasaMoon]"
  by (simp add: fetchFeedUrl_def sampleGet_def str_defs processFeedItem_def moonItem_def
      nasaMoon_def nullish_def)

lemma fetchFeedUrl_b:
  "fetchFeedUrl sampleGet ''nasa'' [] ''https://api.nasa.gov/b'' =
     Inl (JsError (Some 429) ''Request failed with status code 429'')"
  by (simp add: fetchFeedUrl_def sampleGet_def)

lemma fetchFeedUrl_c:
  "fetchFeedUrl sampleGet ''nasa'' [] ''https://api.nasa.gov/c'' = Inr [nasaMars, nasaMoon]"
  by (simp add: fetchFeedUrl_def sampleGet_def str_defs processFeedItem_def moonItem_def
      marsItem_def nasaMoon_def nasaMars_def nullish_def)

text \<open>The amended C3 at three URLs of which the second is rejected with status 429.\<close>

theorem partial_failure_aggregation_witness:
  "fetchFeedUrl sampleGet ''nasa'' [] ''https://api.nasa.gov/b'' =
     Inl (JsError (Some 429) ''Request failed with status code 429'')
   \<and> flattenedResults sampleGet ''nasa'' []
        [''https://api.nasa.gov/a'', ''https://api.nasa.gov/b'', ''https://api.nasa.gov/c'']
      = [nasaMoon, nasaMars, nasaMoon]
   \<and> js_includes (url pipeFeed) ''|''
   \<and> pipeUrls (url pipeFeed) =
        [''https://api.nasa.gov/a'', ''https://api.nasa.gov/b'', ''https://api.nasa.gov/c'']
   \<and> loadFeedItems sampleEnv pipeFeed = [moonMedia, rateLimitItem, marsMedia, moonMedia]
   \<and> length (loadFeedItems sampleEnv pipeFeed) = 3 + 1"
proof -
  let ?a = "''https://api.nasa.gov/a''" and ?b = "''https://api.nasa.gov/b''"
  let ?c = "''https://api.nasa.gov/c''"
  let ?e = "JsError (Some 429) ''Request failed with status code 429''"
  have inc: "js_includes (url pipeFeed) ''|''" by (simp add: pipeFeed_def)
  have same: "pipeFeed\<lparr>url := url pipeFeed\<rparr> = pipeFeed" by simp
  have err: "fetchMediaCatch (pipeFeed\<lparr>url := ?b\<rparr>) ?e = [rateLimitItem]"
    by (simp add: fetchMediaCatch_def errorMessage_def rateLimitItem_def pipeFeed_def)
  show ?thesis
    using partial_failure_aggregation [where get = sampleGet and feedType = "''nasa''"
        and feedFields = "[]" and u = ?b and e = ?e and ?us1.0 = "[?a]" and ?us2.0 = "[?c]"
        and ok = "fetchFeedUrlCaught sampleGet ''nasa'' []"
        and pu = "url pipeFeed" and ?ps1.0 = "[?a]" and p = ?b and ?ps2.0 = "[?c]"
        and env = sampleEnv and media = pipeFeed and pe = ?e
        and pok = "\<lambda>q. asArray (fetchMediaFromAPI sampleEnv (pipeFeed\<lparr>url := q\<rparr>))"]
    by (simp add: inc same err pipeUrls_pipeFeed fetchFeedUrl_a fetchFeedUrl_b fetchFeedUrl_c
        fetchMediaTry_a fetchMediaTry_b fetchMediaTry_c fetchFeedUrlCaught_def
        fetchMediaFromAPI_def asArray_def)
qed

text \<open>
  C3 as stated fails for \<open>loadFeed\<close>: with the second of three URLs rejected, the list holds
  four items, the placeholder among them, not the three of the two successful URLs.
\<close>

theorem loadFeed_keeps_error_item_counterexample:
  "pipeUrls (url pipeFeed) =
     [''https://api.nasa.gov/a'', ''https://api.nasa.gov/b'', ''https://api.nasa.gov/c'']
   \<and> fetchMediaTry sampleEnv (pipeFeed\<lparr>url := ''https://api.nasa.gov/a''\<rparr>) = Inr (Items [moonMedia])
   \<and> fetchMediaTry sampleEnv (pipeFeed\<lparr>url := ''https://api.nasa.gov/b''\<rparr>) =
       Inl (JsError (Some 429) ''Request failed with status code 429'')
   \<and> fetchMediaTry sampleEnv (pipeFeed\<lparr>url := ''https://api.nasa.gov/c''\<rparr>) =
       Inr (Items [marsMedia, moonMedia])
   \<and> loadFeedItems sampleEnv pipeFeed = [moonMedia, rateLimitItem, marsMedia, moonMedia]
   \<and> loadFeedItems sampleEnv pipeFeed \<noteq> [moonMedia] @ [marsMedia, moonMedia]
   \<and> length (loadFeedItems sampleEnv pipeFeed) \<noteq> length [moonMedia] + length [marsMedia, moonMedia]"
proof -
  have inc: "js_includes (url pipeFeed) ''|''" by (simp add: pipeFeed_def)
  have lf: "loadFeedItems sampleEnv pipeFeed = [moonMedia, rateLimitItem, marsMedia, moonMedia]"
    using inc
    by (simp add: loadFeedItems_def pipeUrls_pipeFeed fetchMediaFromAPI_def fetchMediaTry_a
        fetchMediaTry_b fetchMediaTry_c asArray_def fetchMediaCatch_def errorMessage_def
        rateLimitItem_def) (simp add: pipeFeed_def)
  show ?thesis
    by (simp add: lf pipeUrls_pipeFeed fetchMediaTry_a fetchMediaTry_b fetchMediaTry_c)
qed

text \<open>
  C4. A civic issue without \<open>media\<close> is claimed to parse to an item with empty defaults.
  In the case \<open>seeclickfix-311\<close> of \<open>fetchMediaFromAPI\<close> the read \<open>item.media.image_full\<close>
  throws on such an issue; the exception ends the \<open>map\<close>, and the whole feed, the issue
  with an image included, is replaced by one placeholder. \<open>processFeedItem\<close> of the
  card-grid player maps the same issue to an item without throwing.
\<close>

theorem civic_issue_without_media:
  "seeclickfixItem issueNoMedia = Inl (cannot_read JUndefined ''image_full'')
   \<and> seeclickfixItem issueWithMedia =
       Inr \<lparr>item_url = JStr ''https://img/graffiti.png'', item_text = JStr ''On the wall'',
            item_title = JStr ''Graffiti'', isError = False\<rparr>
   \<and> http_get sampleEnv (url (civicFeed)) =
       Inr (JObj [(''issues'', JArr [issueWithMedia, issueNoMedia])])
   \<and> fetchMediaFromAPI sampleEnv (civicFeed) =
       Items [\<lparr>item_url = JNull,
               item_text = JStr (''Error: '' @ err_message (cannot_read JUndefined ''image_full'')),
               item_title = JStr ''Failed to load SeeClickFix'', isError = True\<rparr>]
   \<and> processFeedItem [] issueNoMedia ''seeclickfix'' ''https://seeclickfix.com/api/v2/issues'' =
       Inr (JObj [(''title'', JStr ''Pothole''), (''description'', JStr ''Deep''),
                  (''url'', JUndefined), (''date'', JUndefined),
                  (''source'', JStr ''SeeClickFix''), (''media_type'', JStr ''text'')])"
proof -
  have 1: "seeclickfixItem issueNoMedia = Inl (cannot_read JUndefined ''image_full'')"
    by (simp add: seeclickfixItem_def issueNoMedia_def nullish_def)
  have 2: "seeclickfixItem issueWithMedia =
       Inr \<lparr>item_url = JStr ''https://img/graffiti.png'', item_text = JStr ''On the wall'',
            item_title = JStr ''Graffiti'', isError = False\<rparr>"
    by (simp add: seeclickfixItem_def issueWithMedia_def nullish_def js_or_def)
  have 3: "http_get sampleEnv (url (civicFeed)) =
       Inr (JObj [(''issues'', JArr [issueWithMedia, issueNoMedia])])"
    by (simp add: sampleEnv_def civicFeed_def sampleGet_def)
  have kind: "js_lower (js_trim (feed (civicFeed))) = ''seeclickfix-311''"
    by (simp add: civicFeed_def str_defs)
  have 4: "fetchMediaTry sampleEnv (civicFeed) = Inl (cannot_read JUndefined ''image_full'')"
    by (simp add: fetchMediaTry_def kind 3 seeclickfix311_def nullish_def 1 2)
  have 5: "fetchMediaFromAPI sampleEnv (civicFeed) =
       Items [\<lparr>item_url = JNull,
               item_text = JStr (''Error: '' @ err_message (cannot_read JUndefined ''image_full'')),
               item_title = JStr ''Failed to load SeeClickFix'', isError = True\<rparr>]"
    unfolding fetchMediaFromAPI_def 4
    by (simp add: fetchMediaCatch_def errorMessage_def cannot_read_def civicFeed_def)
  have 6: "processFeedItem [] issueNoMedia ''seeclickfix'' ''https://seeclickfix.com/api/v2/issues'' =
       Inr (JObj [(''title'', JStr ''Pothole''), (''description'', JStr ''Deep''),
                  (''url'', JUndefined), (''date'', JUndefined),
                  (''source'', JStr ''SeeClickFix''), (''media_type'', JStr ''text'')])"
    by (simp add: processFeedItem_def str_defs issueNoMedia_def nullish_def js_or_def)
  show ?thesis using 1 2 3 5 6 by blast
qed

section \<open>Properties of the specification parser\<close>

lemma js_split_nonempty: "js_split sep s \<noteq> []"
  by (induction s) (auto split: list.splits)

lemma update_fresh: "k \<notin> fst ` set al \<Longrightarrow> AList.update k v al = al @ [(k, v)]"
  by (induction al) auto

lemma length_update_le: "length (AList.update k v al) \<le> Suc (length al)"
  by (induction al) auto

lemma length_js_set_prop_le: "length (js_set_prop k v al) \<le> Suc (length al)"
  by (simp add: js_set_prop_def length_update_le)

lemma buildFeedMap_fold: "buildFeedMap s = fold feedMapStep (js_split CHR ''|'' s) []"
  by (simp add: buildFeedMap_def)

lemma fold_step_length:
  "length (fold feedMapStep es acc) \<le> length acc + length (filter entry_accepted es)"
proof (induction es arbitrary: acc)
  case Nil
  then show ?case by simp
next
  case (Cons e es)
  have "length (feedMapStep e acc) \<le> length acc + (if entry_accepted e then 1 else 0)"
    using length_js_set_prop_le [of "js_trim (entry_key e)" _ acc] by (simp add: feedMapStep_def)
  then show ?case using Cons.IH [of "feedMapStep e acc"] by (simp split: if_splits)
qed

lemma fold_step_keys:
  assumes "distinct (map fst acc @ map (\<lambda>e. js_trim (entry_key e)) (filter entry_accepted es))"
    and "''__proto__'' \<notin> set (map (\<lambda>e. js_trim (entry_key e)) (filter entry_accepted es))"
  shows "map fst (fold feedMapStep es acc) =
           map fst acc @ map (\<lambda>e. js_trim (entry_key e)) (filter entry_accepted es)"
  using assms
proof (induction es arbitrary: acc)
  case Nil
  then show ?case by simp
next
  case (Cons e es)
  show ?case
  proof (cases "entry_accepted e")
    case False
    then show ?thesis using Cons by (simp add: feedMapStep_def)
  next
    case True
    let ?k = "js_trim (entry_key e)"
    have fresh: "?k \<notin> fst ` set acc" and np: "?k \<noteq> ''__proto__''"
      using Cons.prems True by auto
    from fresh np True obtain v where step: "feedMapStep e acc = acc @ [(?k, v)]"
      by (simp add: feedMapStep_def js_set_prop_def update_fresh)
    have "distinct (map fst (acc @ [(?k, v)]) @ map (\<lambda>e. js_trim (entry_key e)) (filter entry_accepted es))"
      using Cons.prems(1) True by auto
    moreover have "''__proto__'' \<notin> set (map (\<lambda>e. js_trim (entry_key e)) (filter entry_accepted es))"
      using Cons.prems(2) by auto
    ultimately have "map fst (fold feedMapStep es (acc @ [(?k, v)])) =
        map fst (acc @ [(?k, v)]) @ map (\<lambda>e. js_trim (entry_key e)) (filter entry_accepted es)"
      by (rule Cons.IH)
    then show ?thesis using True step by simp
  qed
qed

lemma length_object_keys: "length (object_keys obj) = length obj"
proof -
  have "length (filter is_array_index (map fst obj)) + length (filter (\<lambda>k. \<not> is_array_index k) (map fst obj))
        = length (map fst obj)"
    by (rule sum_length_filter_compl)
  then show ?thesis by (simp add: object_keys_def)
qed

lemma object_keys_plain:
  assumes "\<forall>k \<in> set (map fst obj). \<not> is_array_index k"
  shows "object_keys obj = map fst obj"
proof -
  have "filter is_array_index (map fst obj) = []" using assms by (simp add: filter_empty_conv)
  moreover have "filter (\<lambda>k. \<not> is_array_index k) (map fst obj) = map fst obj"
    using assms by (simp add: filter_id_conv)
  ultimately show ?thesis by (simp add: object_keys_def)
qed

lemma accepted_nonempty: "entry_accepted e \<Longrightarrow> e \<noteq> []"
  by (auto simp: entry_accepted_def entry_key_def)

lemma bare_url_dropped: "CHR ''='' \<notin> set e \<Longrightarrow> \<not> entry_accepted e"
proof -
  assume "CHR ''='' \<notin> set e"
  then have "js_split CHR ''='' e = [e]" by (induction e) auto
  then show ?thesis by (simp add: entry_accepted_def entry_url_def)
qed

lemma length_filter_mono: "(\<And>x. P x \<Longrightarrow> Q x) \<Longrightarrow> length (filter P xs) \<le> length (filter Q xs)"
  by (induction xs) auto


lemma parseFeedUrls_filter:
  "parseFeedUrls s =
     map (\<lambda>seg. if detectFeedType (js_trim seg) = ''googlesheet''
                then processGoogleSheetUrl (js_trim seg) else js_trim seg)
       (filter (\<lambda>seg. js_trim seg \<noteq> []) (js_split CHR ''|'' s))"
  by (simp add: parseFeedUrls_def filter_map comp_def)

text \<open>
  C5 (as amended). \<open>fetchFeeds\<close> of the card-grid player splits the specification at the
  pipes, trims the segments and keeps those that are not empty then: one URL per such
  segment, in the original order (a segment \<open>key=url\<close> is kept whole, as a URL).
  \<open>buildFeedMap\<close> of the feed-map variant gives a segment a key only if the text before
  its first \<open>=\<close> and the text between its first and second \<open>=\<close> are both non-empty: a bare
  URL without \<open>=\<close> gives none, so the key count is at most the number of such segments,
  which is at most the number of non-empty segments. When the trimmed keys of these
  segments are pairwise distinct, and none is \<open>__proto__\<close> or an array index, the keys are
  exactly these, in insertion order.
\<close>

theorem feed_spec_keys:
  "parseFeedUrls s =
     map (\<lambda>seg. if detectFeedType (js_trim seg) = ''googlesheet''
                then processGoogleSheetUrl (js_trim seg) else js_trim seg)
       (filter (\<lambda>seg. js_trim seg \<noteq> []) (js_split CHR ''|'' s))
   \<and> length (parseFeedUrls s) = length (filter (\<lambda>seg. js_trim seg \<noteq> []) (js_split CHR ''|'' s))
   \<and> length (feedKeys s) \<le> length (filter entry_accepted (js_split CHR ''|'' s))
   \<and> length (filter entry_accepted (js_split CHR ''|'' s))
        \<le> length (filter (\<lambda>seg. seg \<noteq> []) (js_split CHR ''|'' s))
   \<and> (\<forall>e. CHR ''='' \<notin> set e \<longrightarrow> \<not> entry_accepted e)
   \<and> (distinct (map (\<lambda>e. js_trim (entry_key e)) (filter entry_accepted (js_split CHR ''|'' s)))
        \<and> (\<forall>e \<in> set (filter entry_accepted (js_split CHR ''|'' s)).
              js_trim (entry_key e) \<noteq> ''__proto__'' \<and> \<not> is_array_index (js_trim (entry_key e)))
      \<longrightarrow> feedKeys s =
            map (\<lambda>e. js_trim (entry_key e)) (filter entry_accepted (js_split CHR ''|'' s)))"
proof (intro conjI allI impI)
  show "parseFeedUrls s =
     map (\<lambda>seg. if detectFeedType (js_trim seg) = ''googlesheet''
                then processGoogleSheetUrl (js_trim seg) else js_trim seg)
       (filter (\<lambda>seg. js_trim seg \<noteq> []) (js_split CHR ''|'' s))"
    by (rule parseFeedUrls_filter)
  show "length (parseFeedUrls s) = length (filter (\<lambda>seg. js_trim seg \<noteq> []) (js_split CHR ''|'' s))"
    by (simp add: parseFeedUrls_filter)
  show "length (feedKeys s) \<le> length (filter entry_accepted (js_split CHR ''|'' s))"
    using fold_step_length [of "js_split CHR ''|'' s" "[]"]
    by (simp add: feedKeys_def length_object_keys buildFeedMap_def)
  show "length (filter entry_accepted (js_split CHR ''|'' s))
        \<le> length (filter (\<lambda>seg. seg \<noteq> []) (js_split CHR ''|'' s))"
    by (rule length_filter_mono) (rule accepted_nonempty)
next
  fix e :: string
  assume "CHR ''='' \<notin> set e"
  then show "\<not> entry_accepted e" by (rule bare_url_dropped)
next
  let ?keys = "map (\<lambda>e. js_trim (entry_key e)) (filter entry_accepted (js_split CHR ''|'' s))"
  assume a: "distinct ?keys
        \<and> (\<forall>e \<in> set (filter entry_accepted (js_split CHR ''|'' s)).
              js_trim (entry_key e) \<noteq> ''__proto__'' \<and> \<not> is_array_index (js_trim (entry_key e)))"
  have "''__proto__'' \<notin> set ?keys" using a by auto
  then have keys: "map fst (buildFeedMap s) = ?keys"
    using a fold_step_keys [of "[]" "js_split CHR ''|'' s"] by (simp add: buildFeedMap_def)
  have "\<forall>k \<in> set (map fst (buildFeedMap s)). \<not> is_array_index k"
    unfolding keys using a by auto
  then show "feedKeys s = ?keys"
    using keys by (simp add: feedKeys_def object_keys_plain)
qed

lemmas feed_map_defs = feedKeys_def buildFeedMap_def feedMapStep_def entry_accepted_def
  entry_key_def entry_url_def js_set_prop_def js_trim_def is_space_def object_keys_def
  is_array_index_def is_digit_def decimal_value_def digit_value_def

text \<open>The amended C5 at a specification of two named feeds.\<close>

theorem feed_spec_keys_witness:
  "filter entry_accepted (js_split CHR ''|'' ''nasa=https://x/apod|seeclickfix=https://y/issues'')
     = [''nasa=https://x/apod'', ''seeclickfix=https://y/issues'']
   \<and> feedKeys ''nasa=https://x/apod|seeclickfix=https://y/issues'' = [''nasa'', ''seeclickfix'']
   \<and> parseFeedUrls ''nasa=https://x/apod|seeclickfix=https://y/issues''
     = [''nasa=https://x/apod'', ''seeclickfix=https://y/issues'']
   \<and> CHR ''='' \<notin> set ''https://y/issues'' \<and> \<not> entry_accepted ''https://y/issues''"
  using feed_spec_keys [of "''nasa=https://x/apod|seeclickfix=https://y/issues''"]
  by (simp add: feed_map_defs detectFeedType_def)

text \<open>
  C5 as stated fails for \<open>buildFeedMap\<close>: a specification with a named and a bare URL has
  two non-empty segments and one key; numeric keys come out in ascending order, not in
  insertion order; a repeated key counts once.
\<close>

theorem feed_keys_counterexample:
  "feedKeys ''nasa=https://x/apod|https://y/issues'' = [''nasa'']
   \<and> filter (\<lambda>seg. seg \<noteq> []) (js_split CHR ''|'' ''nasa=https://x/apod|https://y/issues'')
     = [''nasa=https://x/apod'', ''https://y/issues'']
   \<and> feedKeys ''b=https://x|2=https://y|1=https://z'' = [''1'', ''2'', ''b'']
   \<and> feedKeys ''a=https://x|a=https://y'' = [''a'']"
  by (simp add: feed_map_defs)

section \<open>Properties of the spreadsheet URL normalisation\<close>

lemma sheet_id_match_shape:
  "sheet_id_match u = Some ident \<Longrightarrow>
     \<exists>before after. u = before @ ''/d/'' @ ident @ after
        \<and> (after = [] \<or> hd after = CHR ''/'') \<and> CHR ''/'' \<notin> set ident"
proof (induction u)
  case Nil
  then show ?case by simp
next
  case (Cons c cs)
  let ?rest = "drop 3 (c # cs)"
  let ?cand = "takeWhile (\<lambda>x. x \<noteq> CHR ''/'') ?rest"
  show ?case
  proof (cases "prefix ''/d/'' (c # cs) \<and> CHR 0x0A \<notin> set ?cand \<and> CHR 0x0D \<notin> set ?cand")
    case True
    then have "sheet_id_match (c # cs) = Some ?cand"
      unfolding sheet_id_match.simps Let_def by (rule if_P)
    then have id: "ident = ?cand" using Cons.prems by simp
    from True obtain r where r: "c # cs = ''/d/'' @ r" by (auto simp: prefix_def)
    then have rest: "?rest = r" by simp
    have split: "r = ?cand @ dropWhile (\<lambda>x. x \<noteq> CHR ''/'') r"
      using rest by simp
    have after: "dropWhile (\<lambda>x. x \<noteq> CHR ''/'') r = []
                 \<or> hd (dropWhile (\<lambda>x. x \<noteq> CHR ''/'') r) = CHR ''/''"
      using hd_dropWhile [of "\<lambda>x. x \<noteq> CHR ''/''" r] by auto
    have noslash: "CHR ''/'' \<notin> set ?cand"
      by (auto dest: set_takeWhileD)
    have "c # cs = [] @ ''/d/'' @ ident @ dropWhile (\<lambda>x. x \<noteq> CHR ''/'') r"
      using r split id rest by simp
    then show ?thesis using after noslash id by blast
  next
    case False
    then have "sheet_id_match (c # cs) = sheet_id_match cs"
      unfolding sheet_id_match.simps Let_def by (rule if_not_P)
    then have "sheet_id_match cs = Some ident" using Cons.prems by simp
    then obtain before after where "cs = before @ ''/d/'' @ ident @ after"
      "after = [] \<or> hd after = CHR ''/''" "CHR ''/'' \<notin> set ident"
      using Cons.IH by blast
    then have "c # cs = (c # before) @ ''/d/'' @ ident @ after" by simp
    then show ?thesis
      using \<open>after = [] \<or> hd after = CHR ''/''\<close> \<open>CHR ''/'' \<notin> set ident\<close> by blast
  qed
qed

text \<open>
  What the two normalisations do, for every URL. \<open>processGoogleSheetUrl\<close> returns a URL
  that contains \<open>/pub?\<close> or \<open>/gviz/tq?\<close> as it is; otherwise, when the pattern \<open>/d/<id>\<close> yields a non-empty identifier (the text
  between a \<open>/d/\<close> and the next slash or the end), the URL becomes the \<open>gviz\<close> CSV export of
  that identifier; and when no identifier can be extracted the URL is returned as it is.
  The normalisation written inside \<open>fetchFeeds\<close> of the feed-map variant does the same
  for spreadsheet URLs, with \<open>/gviz/tq?\<close> as the only accepted form. Both are total:
  nothing is thrown.
\<close>

theorem sheet_url_normalisation:
  "(js_includes u ''/pub?'' \<or> js_includes u ''/gviz/tq?'' \<longrightarrow> processGoogleSheetUrl u = u)
   \<and> (\<not> js_includes u ''/pub?'' \<and> \<not> js_includes u ''/gviz/tq?''
        \<and> sheet_id_match u = Some ident \<and> ident \<noteq> []
      \<longrightarrow> processGoogleSheetUrl u =
            ''https://docs.google.com/spreadsheets/d/'' @ ident @ ''/gviz/tq?tqx=out:csv''
          \<and> (\<exists>before after. u = before @ ''/d/'' @ ident @ after
                \<and> (after = [] \<or> hd after = CHR ''/'') \<and> CHR ''/'' \<notin> set ident))
   \<and> (sheet_id_match u = None \<or> sheet_id_match u = Some [] \<longrightarrow> processGoogleSheetUrl u = u)
   \<and> (detectFeedType u \<noteq> ''googlesheet'' \<or> js_includes u ''/gviz/tq?'' \<longrightarrow> inlineSheetUrl u = u)
   \<and> (detectFeedType u = ''googlesheet'' \<and> \<not> js_includes u ''/gviz/tq?''
        \<and> sheet_id_match u = Some ident \<and> ident \<noteq> []
      \<longrightarrow> inlineSheetUrl u =
            ''https://docs.google.com/spreadsheets/d/'' @ ident @ ''/gviz/tq?tqx=out:csv'')
   \<and> (sheet_id_match u = None \<or> sheet_id_match u = Some [] \<longrightarrow> inlineSheetUrl u = u)"
proof (intro conjI impI)
  assume "js_includes u ''/pub?'' \<or> js_includes u ''/gviz/tq?''"
  then show "processGoogleSheetUrl u = u" by (auto simp: processGoogleSheetUrl_def)
next
  assume a: "\<not> js_includes u ''/pub?'' \<and> \<not> js_includes u ''/gviz/tq?''
        \<and> sheet_id_match u = Some ident \<and> ident \<noteq> []"
  then show "processGoogleSheetUrl u =
            ''https://docs.google.com/spreadsheets/d/'' @ ident @ ''/gviz/tq?tqx=out:csv''"
    by (simp add: processGoogleSheetUrl_def gviz_url_def)
  show "\<exists>before after. u = before @ ''/d/'' @ ident @ after
                \<and> (after = [] \<or> hd after = CHR ''/'') \<and> CHR ''/'' \<notin> set ident"
    using a sheet_id_match_shape by blast
next
  assume "sheet_id_match u = None \<or> sheet_id_match u = Some []"
  then show "processGoogleSheetUrl u = u" by (auto simp: processGoogleSheetUrl_def)
next
  assume "detectFeedType u \<noteq> ''googlesheet'' \<or> js_includes u ''/gviz/tq?''"
  then show "inlineSheetUrl u = u" by (auto simp: inlineSheetUrl_def)
next
  assume "detectFeedType u = ''googlesheet'' \<and> \<not> js_includes u ''/gviz/tq?''
        \<and> sheet_id_match u = Some ident \<and> ident \<noteq> []"
  then show "inlineSheetUrl u =
            ''https://docs.google.com/spreadsheets/d/'' @ ident @ ''/gviz/tq?tqx=out:csv''"
    by (simp add: inlineSheetUrl_def gviz_url_def)
next
  assume "sheet_id_match u = None \<or> sheet_id_match u = Some []"
  then show "inlineSheetUrl u = u" by (auto simp: inlineSheetUrl_def)
qed

lemma sheetEditUrl_id:
  "sheet_id_match sheetEditUrl = Some ''1jQTlXWom-pXvyP9zuTcbdluyvpb43hu2h7anxhF5qlQ''"
  by (simp add: sheetEditUrl_def)

lemma sheetNoIdUrl_id: "sheet_id_match sheetNoIdUrl = None"
  by (simp add: sheetNoIdUrl_def)

text \<open>Both at a \<open>gviz\<close> link, a published link, an edit link and a link without identifier.\<close>

theorem sheet_url_normalisation_witness:
  "js_includes sheetGvizUrl ''/gviz/tq?'' \<and> processGoogleSheetUrl sheetGvizUrl = sheetGvizUrl
   \<and> inlineSheetUrl sheetGvizUrl = sheetGvizUrl
   \<and> js_includes sheetPubUrl ''/pub?'' \<and> processGoogleSheetUrl sheetPubUrl = sheetPubUrl
   \<and> \<not> js_includes sheetEditUrl ''/pub?'' \<and> \<not> js_includes sheetEditUrl ''/gviz/tq?''
   \<and> detectFeedType sheetEditUrl = ''googlesheet''
   \<and> sheet_id_match sheetEditUrl = Some ''1jQTlXWom-pXvyP9zuTcbdluyvpb43hu2h7anxhF5qlQ''
   \<and> processGoogleSheetUrl sheetEditUrl =
       ''https://docs.google.com/spreadsheets/d/1jQTlXWom-pXvyP9zuTcbdluyvpb43hu2h7anxhF5qlQ/gviz/tq?tqx=out:csv''
   \<and> inlineSheetUrl sheetEditUrl =
       ''https://docs.google.com/spreadsheets/d/1jQTlXWom-pXvyP9zuTcbdluyvpb43hu2h7anxhF5qlQ/gviz/tq?tqx=out:csv''
   \<and> sheet_id_match sheetNoIdUrl = None
   \<and> processGoogleSheetUrl sheetNoIdUrl = sheetNoIdUrl
   \<and> inlineSheetUrl sheetNoIdUrl = sheetNoIdUrl"
proof -
  have g: "js_includes sheetGvizUrl ''/gviz/tq?''" by (simp add: sheetGvizUrl_def)
  have p: "js_includes sheetPubUrl ''/pub?''" by (simp add: sheetPubUrl_def)
  have e: "\<not> js_includes sheetEditUrl ''/pub?''" "\<not> js_includes sheetEditUrl ''/gviz/tq?''"
    "detectFeedType sheetEditUrl = ''googlesheet''"
    by (simp_all add: sheetEditUrl_def detectFeedType_def)
  show ?thesis
    using sheet_url_normalisation [of sheetGvizUrl "[]"]
      sheet_url_normalisation [of sheetPubUrl "[]"]
      sheet_url_normalisation [of sheetEditUrl "''1jQTlXWom-pXvyP9zuTcbdluyvpb43hu2h7anxhF5qlQ''"]
      sheet_url_normalisation [of sheetNoIdUrl "[]"]
    by (simp add: g p e sheetEditUrl_id sheetNoIdUrl_id)
qed

lemma sheetPubUrl_id: "sheet_id_match sheetPubUrl = Some ''e''"
  by (simp add: sheetPubUrl_def)

text \<open>
  C6. A spreadsheet URL that is already in an accepted CSV-export form is to come back
  unchanged. \<open>processGoogleSheetUrl\<close> accepts the published form: the published CSV link of
  the documentation, which contains \<open>/pub?\<close>, is returned as it is. The normalisation
  written inside \<open>fetchFeeds\<close> of \<open>FeedPlayer.tsx\<close> tests \<open>/gviz/tq?\<close> only: it takes the
  same link for a document link, captures the \<open>e\<close> that follows its \<open>/d/\<close> and rebuilds
  the URL from it, so that the request goes to a document named \<open>e\<close>.
\<close>

theorem inline_normalisation_rewrites_published_link:
  "detectFeedType sheetPubUrl = ''googlesheet''
   \<and> js_includes sheetPubUrl ''/pub?''
   \<and> \<not> js_includes sheetPubUrl ''/gviz/tq?''
   \<and> processGoogleSheetUrl sheetPubUrl = sheetPubUrl
   \<and> sheet_id_match sheetPubUrl = Some ''e''
   \<and> inlineSheetUrl sheetPubUrl = ''https://docs.google.com/spreadsheets/d/e/gviz/tq?tqx=out:csv''
   \<and> inlineSheetUrl sheetPubUrl \<noteq> sheetPubUrl"
proof -
  have t: "detectFeedType sheetPubUrl = ''googlesheet''"
    by (simp add: sheetPubUrl_def detectFeedType_def)
  have p: "js_includes sheetPubUrl ''/pub?''" by (simp add: sheetPubUrl_def)
  have g: "\<not> js_includes sheetPubUrl ''/gviz/tq?''" by (simp add: sheetPubUrl_def)
  have 1: "processGoogleSheetUrl sheetPubUrl = sheetPubUrl"
    using p by (simp add: processGoogleSheetUrl_def)
  have 2: "inlineSheetUrl sheetPubUrl = ''https://docs.google.com/spreadsheets/d/e/gviz/tq?tqx=out:csv''"
    using t g by (simp add: inlineSheetUrl_def sheetPubUrl_id gviz_url_def)
  have 3: "''https://docs.google.com/spreadsheets/d/e/gviz/tq?tqx=out:csv'' \<noteq> sheetPubUrl"
    by (simp add: sheetPubUrl_def)
  show ?thesis using t p g 1 2 3 sheetPubUrl_id by simp
qed

section \<open>Properties of the spreadsheet adapter\<close>

lemma map_of_js_set_prop:
  "map_of (js_set_prop k v obj) = (if k = ''__proto__'' then map_of obj else (map_of obj)(k \<mapsto> v))"
  by (simp add: js_set_prop_def update_conv')

lemma map_of_fold_set_prop:
  assumes "i < n" "key i \<noteq> ''__proto__''" "\<forall>j. i < j \<and> j < n \<longrightarrow> key j \<noteq> key i"
  shows "map_of (fold (\<lambda>i acc. js_set_prop (key i) (val i) acc) [0 ..< n] []) (key i) = Some (val i)"
  using assms
proof (induction n)
  case 0
  then show ?case by simp
next
  case (Suc n)
  show ?case
  proof (cases "i = n")
    case True
    then show ?thesis using Suc.prems by (simp add: map_of_js_set_prop)
  next
    case False
    then have "i < n" using Suc.prems by simp
    moreover have "\<forall>j. i < j \<and> j < n \<longrightarrow> key j \<noteq> key i" using Suc.prems by simp
    ultimately have "map_of (fold (\<lambda>i acc. js_set_prop (key i) (val i) acc) [0 ..< n] []) (key i)
                     = Some (val i)"
      using Suc.IH Suc.prems(2) by blast
    moreover have "key n \<noteq> key i" using Suc.prems \<open>i < n\<close> by simp
    ultimately show ?thesis by (simp add: map_of_js_set_prop)
  qed
qed

lemma csv_item_field:
  assumes "i < length headers" "js_trim (headers ! i) \<noteq> ''__proto__''"
    "\<forall>j. i < j \<and> j < length headers \<longrightarrow> js_trim (headers ! j) \<noteq> js_trim (headers ! i)"
  shows "field (csv_item headers row) (js_trim (headers ! i)) = JStr (csv_cell row i)"
  using map_of_fold_set_prop [of i "length headers" "\<lambda>i. js_trim (headers ! i)"
      "\<lambda>i. JStr (csv_cell row i)"] assms
  by (simp add: csv_item_def)

lemma csv_item_is_object: "\<exists>kvs. csv_item headers row = JObj kvs"
  by (simp add: csv_item_def)

lemma processFeedItem_object:
  "\<exists>v. processFeedItem feedFields (JObj kvs) type sourceUrl = Inr v"
  by (simp add: processFeedItem_def Let_def nullish_def)

lemma length_csv_items: "length (csv_items body) = length (js_split CHR 0x0A body) - 1"
  by (simp add: csv_items_def csv_rows_def)

lemma map_throw_length: "map_throw f xs = Inr ys \<Longrightarrow> length ys = length xs"
  by (induction xs arbitrary: ys) (auto split: sum.splits)

lemma map_throw_objects:
  assumes "\<And>x. x \<in> set xs \<Longrightarrow> \<exists>v. f x = Inr v"
  shows "\<exists>ys. map_throw f xs = Inr ys"
  using assms
proof (induction xs)
  case Nil
  then show ?case by simp
next
  case (Cons x xs)
  then obtain v ys where "f x = Inr v" "map_throw f xs = Inr ys" by (meson list.set_intros)
  then show ?case by simp
qed

lemma googlesheet_never_throws:
  assumes "get u = Inr (JStr body)"
  shows "\<exists>items. fetchFeedUrl get ''googlesheet'' feedFields u = Inr items
           \<and> length items = length (js_split CHR 0x0A body) - 1"
proof -
  have "\<exists>v. processFeedItem feedFields x ''googlesheet'' u = Inr v"
    if "x \<in> set (csv_items body)" for x
  proof -
    from that obtain row where "x = csv_item (hd (csv_rows body)) row"
      unfolding csv_items_def by auto
    then obtain kvs where "x = JObj kvs" using csv_item_is_object by metis
    then show ?thesis using processFeedItem_object by simp
  qed
  then obtain items where
    items: "map_throw (\<lambda>item. processFeedItem feedFields item ''googlesheet'' u) (csv_items body)
            = Inr items"
    using map_throw_objects [of "csv_items body"
        "\<lambda>item. processFeedItem feedFields item ''googlesheet'' u"]
    by blast
  have low: "js_lower ''googlesheet'' = ''googlesheet''" by (simp add: js_lower_def lower_char_def)
  have "fetchFeedUrl get ''googlesheet'' feedFields u = Inr items"
    by (simp add: fetchFeedUrl_def assms low items)
  then show ?thesis using map_throw_length [OF items] length_csv_items by auto
qed

lemma dropWhile_all: "\<forall>x \<in> set xs. P x \<Longrightarrow> dropWhile P xs = []"
  by (induction xs) auto

lemma blank_cell:
  assumes "list_all is_space cell"
  shows "js_trim cell = []"
proof -
  have d: "dropWhile is_space cell = []"
    using assms dropWhile_all [of cell is_space] by (simp add: list_all_iff)
  show ?thesis unfolding js_trim_def d by simp
qed

text \<open>
  C7. The spreadsheet case splits the body at the line feeds and every line at its commas
  (nothing is quoted or escaped); the first line gives the headers and every later line
  one item. Under each trimmed header (the last, where a header repeats) the item holds
  the trimmed cell at that position; a cell that is missing at the end of its line, or
  blank, gives the empty string. No body makes the adapter throw, and it yields one item
  per line after the first. The body \<open>title,url\<close>, \<open>A,http://img/a.jpg\<close>,
  \<open>B,http://img/b.jpg\<close> yields exactly two items, with the titles \<open>A\<close> and \<open>B\<close>.
\<close>

theorem csv_adapter:
  "csv_rows body = map (js_split CHR '','') (js_split CHR 0x0A body)
   \<and> csv_items body = map (csv_item (hd (csv_rows body))) (tl (csv_rows body))
   \<and> length (csv_items body) = length (js_split CHR 0x0A body) - 1
   \<and> (i < length headers \<and> js_trim (headers ! i) \<noteq> ''__proto__''
        \<and> (\<forall>j. i < j \<and> j < length headers \<longrightarrow> js_trim (headers ! j) \<noteq> js_trim (headers ! i))
      \<longrightarrow> field (csv_item headers row) (js_trim (headers ! i)) = JStr (csv_cell row i))
   \<and> (i < length row \<longrightarrow> csv_cell row i = js_trim (row ! i))
   \<and> (length row \<le> i \<or> list_all is_space (row ! i) \<longrightarrow> csv_cell row i = [])
   \<and> (get u = Inr (JStr body)
      \<longrightarrow> (\<exists>items. fetchFeedUrl get ''googlesheet'' feedFields u = Inr items
                \<and> length items = length (js_split CHR 0x0A body) - 1))
   \<and> fetchFeedUrl csvGet ''googlesheet'' [] src =
       Inr [JObj [(''source'', JStr src), (''title'', JStr ''A''), (''url'', JStr ''http://img/a.jpg'')],
            JObj [(''source'', JStr src), (''title'', JStr ''B''), (''url'', JStr ''http://img/b.jpg'')]]"
proof (intro conjI impI)
  show "csv_rows body = map (js_split CHR '','') (js_split CHR 0x0A body)"
    by (simp add: csv_rows_def)
  show "csv_items body = map (csv_item (hd (csv_rows body))) (tl (csv_rows body))"
    by (simp add: csv_items_def)
  show "length (csv_items body) = length (js_split CHR 0x0A body) - 1"
    by (rule length_csv_items)
next
  assume "i < length headers \<and> js_trim (headers ! i) \<noteq> ''__proto__''
        \<and> (\<forall>j. i < j \<and> j < length headers \<longrightarrow> js_trim (headers ! j) \<noteq> js_trim (headers ! i))"
  then show "field (csv_item headers row) (js_trim (headers ! i)) = JStr (csv_cell row i)"
    using csv_item_field by blast
next
  assume "i < length row"
  then show "csv_cell row i = js_trim (row ! i)" by (simp add: csv_cell_def)
next
  assume "length row \<le> i \<or> list_all is_space (row ! i)"
  then show "csv_cell row i = []" by (auto simp: csv_cell_def blank_cell)
next
  assume "get u = Inr (JStr body)"
  then show "\<exists>items. fetchFeedUrl get ''googlesheet'' feedFields u = Inr items
                \<and> length items = length (js_split CHR 0x0A body) - 1"
    by (rule googlesheet_never_throws)
next
  have items: "csv_items sampleCsv =
     [JObj [(''title'', JStr ''A''), (''url'', JStr ''http://img/a.jpg'')],
      JObj [(''title'', JStr ''B''), (''url'', JStr ''http://img/b.jpg'')]]"
    by (simp add: csv_items_def csv_rows_def sampleCsv_def csv_item_def csv_cell_def
        js_set_prop_def js_trim_def is_space_def)
  show "fetchFeedUrl csvGet ''googlesheet'' [] src =
       Inr [JObj [(''source'', JStr src), (''title'', JStr ''A''), (''url'', JStr ''http://img/a.jpg'')],
            JObj [(''source'', JStr src), (''title'', JStr ''B''), (''url'', JStr ''http://img/b.jpg'')]]"
    by (simp add: fetchFeedUrl_def csvGet_def items processFeedItem_def js_lower_def lower_char_def
        object_assign_def js_set_prop_def)
qed

text \<open>C7 at a body with padded headers, a blank cell and a missing cell.\<close>

theorem csv_adapter_witness:
  "field (csv_item [''title'', '' url ''] [''A'', ''  '']) ''url'' = JStr []
   \<and> csv_cell [''A'', ''  ''] 1 = js_trim ''  ''
   \<and> csv_cell [''A'', ''  ''] 1 = []
   \<and> csvGet ''https://sheet'' = Inr (JStr sampleCsv)
   \<and> (\<exists>items. fetchFeedUrl csvGet ''googlesheet'' [''title''] ''https://sheet'' = Inr items
         \<and> length items = 2)
   \<and> csv_items raggedCsv =
       [JObj [(''title'', JStr ''A''), (''url'', JStr [])],
        JObj [(''title'', JStr ''B''), (''url'', JStr [])]]"
proof -
  let ?H = "[''title'', '' url '']" and ?R = "[''A'', ''  '']"
  note T = csv_adapter [where body = sampleCsv and i = 1 and headers = ?H and row = ?R
      and get = csvGet and u = "''https://sheet''" and feedFields = "[''title'']"
      and src = "''https://sheet''"]
  have tr: "js_trim '' url '' = ''url''"
    by (simp add: js_trim_def is_space_def)
  have h1: "1 < length ?H \<and> js_trim (?H ! 1) \<noteq> ''__proto__''
        \<and> (\<forall>j. 1 < j \<and> j < length ?H \<longrightarrow> js_trim (?H ! j) \<noteq> js_trim (?H ! 1))"
    by (auto simp: tr)
  have h2: "1 < length ?R" by simp
  have h3: "length ?R \<le> 1 \<or> list_all is_space (?R ! 1)" by (simp add: is_space_def)
  have h4: "csvGet ''https://sheet'' = Inr (JStr sampleCsv)" by (simp add: csvGet_def)
  have n: "length (js_split CHR 0x0A sampleCsv) - Suc 0 = 2" by (simp add: sampleCsv_def)
  have c1: "field (csv_item ?H ?R) (js_trim (?H ! 1)) = JStr (csv_cell ?R 1)"
    using T h1 by blast
  have c2: "csv_cell ?R 1 = js_trim (?R ! 1)" using T h2 by blast
  have c3: "csv_cell ?R 1 = []" using T h3 by blast
  have c4: "\<exists>items. fetchFeedUrl csvGet ''googlesheet'' [''title''] ''https://sheet'' = Inr items
         \<and> length items = length (js_split CHR 0x0A sampleCsv) - 1"
    using T h4 by blast
  have c5: "csv_items raggedCsv =
       [JObj [(''title'', JStr ''A''), (''url'', JStr [])],
        JObj [(''title'', JStr ''B''), (''url'', JStr [])]]"
    by (simp add: csv_items_def csv_rows_def raggedCsv_def csv_item_def csv_cell_def
        js_set_prop_def js_trim_def is_space_def)
  show ?thesis using c1 c2 c3 c4 c5 h4 by (simp add: tr n)
qed

section \<open>Properties of the plain \<open>FeedPlayer\<close>\<close>

lemma js_includes_append_left: "js_includes x p \<Longrightarrow> js_includes (x @ z) p"
proof (induction x)
  case Nil
  then show ?case by (cases z) auto
next
  case (Cons c x)
  then show ?case using prefix_prefix [of p "c # x" z] by auto
qed

lemma js_includes_append_right: "js_includes z p \<Longrightarrow> js_includes (x @ z) p"
  by (induction x) auto

lemma prefix_misses_last:
  assumes "prefix p (m @ y)" "m \<noteq> []" "last m \<notin> set p"
  shows "prefix p (butlast m)"
proof -
  have m: "m = butlast m @ [last m]" using assms(2) by simp
  then have "prefix p (butlast m @ ([last m] @ y))" using assms(1) by (metis append.assoc)
  then consider "prefix p (butlast m)" | us where "p = butlast m @ us" "us \<noteq> []" "prefix us ([last m] @ y)"
    unfolding prefix_append by (metis append_Nil2 prefix_order.order_refl)
  then show ?thesis
  proof cases
    case 1
    then show ?thesis .
  next
    case 2
    then have "hd us = last m" by (cases us) auto
    then have "last m \<in> set p" using 2 by (cases us) auto
    then show ?thesis using assms(3) by simp
  qed
qed

lemma js_includes_prefix: "prefix p s \<Longrightarrow> js_includes s p"
  by (cases s) auto

lemma js_includes_past_match:
  assumes "js_includes (m @ y) p" "m \<noteq> []" "last m \<notin> set p" "\<not> js_includes (butlast m) p"
  shows "js_includes y p"
  using assms
proof (induction m)
  case Nil
  then show ?case by simp
next
  case (Cons c m)
  have np: "\<not> prefix p ((c # m) @ y)"
    using prefix_misses_last [of p "c # m" y] Cons.prems js_includes_prefix by blast
  show ?case
  proof (cases "m = []")
    case True
    then show ?thesis using Cons.prems np by simp
  next
    case False
    then have "js_includes (m @ y) p" using Cons.prems np by simp
    moreover have "last m \<notin> set p" using Cons.prems False by simp
    moreover have "\<not> js_includes (butlast m) p" using Cons.prems False by auto
    ultimately show ?thesis using Cons.IH False by blast
  qed
qed

lemma js_includes_around_match:
  assumes "js_includes (x @ m @ y) p" "m \<noteq> []" "hd m \<notin> set p" "last m \<notin> set p"
    "\<not> js_includes (butlast m) p"
  shows "js_includes x p \<or> js_includes y p"
  using assms
proof (induction x)
  case Nil
  then show ?case using js_includes_past_match by auto
next
  case (Cons c x)
  have "prefix p ((c # x) @ m @ y) \<or> js_includes (x @ m @ y) p" using Cons.prems by simp
  then show ?case
  proof
    assume "prefix p ((c # x) @ m @ y)"
    then consider "prefix p (c # x)" | us where "p = (c # x) @ us" "us \<noteq> []" "prefix us (m @ y)"
      unfolding prefix_append by (metis append_Nil2 prefix_order.order_refl)
    then show ?thesis
    proof cases
      case 1
      then show ?thesis using js_includes_prefix by blast
    next
      case 2
      then have "hd us = hd m" using Cons.prems(2) by (cases us; cases m) auto
      then have "hd m \<in> set p" using 2 by (cases us) auto
      then show ?thesis using Cons.prems by simp
    qed
  next
    assume "js_includes (x @ m @ y) p"
    then have "js_includes x p \<or> js_includes y p" using Cons.IH Cons.prems by blast
    then show ?thesis by auto
  qed
qed

lemma split_at_first_append:
  "split_at_first pat s = Some (before, after) \<Longrightarrow> s = before @ pat @ after"
proof (induction s arbitrary: before)
  case Nil
  then show ?case by (simp split: if_splits)
next
  case (Cons c cs)
  show ?case
  proof (cases "prefix pat (c # cs)")
    case True
    then have "before = []" "after = drop (length pat) (c # cs)" using Cons.prems by simp_all
    moreover from True obtain r where "c # cs = pat @ r" by (auto simp: prefix_def)
    ultimately show ?thesis by simp
  next
    case False
    then obtain b where "split_at_first pat cs = Some (b, after)" "before = c # b"
      using Cons.prems by (auto split: option.splits)
    then show ?thesis using Cons.IH by simp
  qed
qed

lemma js_replace_shape:
  "js_replace s pat rep = s
   \<or> (\<exists>before after x. s = before @ pat @ after \<and> js_replace s pat rep = before @ x @ after)"
  by (auto simp: js_replace_def split: option.splits dest: split_at_first_append)

lemma js_replace_keeps:
  assumes "js_includes s p" "pat \<noteq> []" "hd pat \<notin> set p" "last pat \<notin> set p"
    "\<not> js_includes (butlast pat) p"
  shows "js_includes (js_replace s pat rep) p"
proof -
  consider "js_replace s pat rep = s"
    | before after x where "s = before @ pat @ after" "js_replace s pat rep = before @ x @ after"
    using js_replace_shape by blast
  then show ?thesis
  proof cases
    case 1
    then show ?thesis using assms(1) by simp
  next
    case 2
    then have "js_includes before p \<or> js_includes after p"
      using js_includes_around_match assms by blast
    then show ?thesis
      using 2 js_includes_append_left js_includes_append_right by metis
  qed
qed

lemma apiUrl_keeps_host:
  assumes "js_includes u ''seeclickfix.com''"
  shows "js_includes (apiUrl env u) ''seeclickfix.com''"
proof -
  have "js_includes (js_replace u ''{latitude}'' (stored_or (latitude env) ''41.307'')) ''seeclickfix.com''"
    using assms by (rule js_replace_keeps) simp_all
  then have "js_includes (js_replace (js_replace u ''{latitude}'' (stored_or (latitude env) ''41.307''))
       ''{longitude}'' (stored_or (longitude env) ''-72.925'')) ''seeclickfix.com''"
    by (rule js_replace_keeps) simp_all
  then show ?thesis using assms by (simp add: apiUrl_def)
qed


lemma hasImage_total: "\<not> nullish x \<Longrightarrow> hasImage x = Inr (possessesImage x)"
  by (simp add: hasImage_def possessesImage_def js_or_def Let_def)

lemma filter_throw_hasImage:
  "\<forall>x \<in> set xs. \<not> nullish x \<Longrightarrow> filter_throw hasImage xs = Inr (filter possessesImage xs)"
  by (induction xs) (simp_all add: hasImage_total)

lemma expand_no_dollar:
  "CHR ''$'' \<notin> set rep \<Longrightarrow> expand_replacement matched before after rep = rep"
  by (induction matched before after rep rule: expand_replacement.induct) auto

lemma split_at_first_None: "(split_at_first pat s = None) = (\<not> js_includes s pat)"
  by (induction s) auto

text \<open>
  C10. On the SeeClickFix path of the plain \<open>FeedPlayer\<close>, when the request succeeds and
  the response holds an array of issues (under \<open>issues\<close>, or as the response itself), the
  items appended for the URL are exactly the issues that possess a media image, in their
  order, cut to the first five; issues without image are not in the result. The request
  URL is the given one with the first \<open>{latitude}\<close> and the first \<open>{longitude}\<close> replaced by
  the stored values, or by \<open>41.307\<close> and \<open>-72.925\<close> where nothing is stored; a replacement
  without dollar sign is inserted as it is, and a URL without placeholder is unchanged.
\<close>

theorem seeclickfix_grid_path:
  "(js_includes u ''seeclickfix.com'' \<and> grid_get env (apiUrl env u) = Inr response
      \<and> \<not> nullish response \<and> js_or (field response ''issues'') response = JArr issues
      \<and> (\<forall>x \<in> set issues. \<not> nullish x)
    \<longrightarrow> gridItems env u = Inr (take 5 (filter possessesImage issues))
        \<and> gridStep env allItems u = allItems @ take 5 (filter possessesImage issues))
   \<and> (js_includes u ''seeclickfix.com''
    \<longrightarrow> apiUrl env u =
          js_replace (js_replace u ''{latitude}'' (stored_or (latitude env) ''41.307''))
            ''{longitude}'' (stored_or (longitude env) ''-72.925''))
   \<and> stored_or None fallback = fallback
   \<and> (v \<noteq> [] \<longrightarrow> stored_or (Some v) fallback = v)
   \<and> (CHR ''$'' \<notin> set rep \<and> split_at_first pat s = Some (before, after)
    \<longrightarrow> s = before @ pat @ after \<and> js_replace s pat rep = before @ rep @ after)
   \<and> (\<not> js_includes s pat \<longrightarrow> js_replace s pat rep = s)"
proof (intro conjI impI)
  assume a: "js_includes u ''seeclickfix.com'' \<and> grid_get env (apiUrl env u) = Inr response
      \<and> \<not> nullish response \<and> js_or (field response ''issues'') response = JArr issues
      \<and> (\<forall>x \<in> set issues. \<not> nullish x)"
  then have host: "js_includes (apiUrl env u) ''seeclickfix.com''"
    using apiUrl_keeps_host by blast
  have filt: "filter_throw hasImage issues = Inr (filter possessesImage issues)"
    using a filter_throw_hasImage by blast
  show items: "gridItems env u = Inr (take 5 (filter possessesImage issues))"
    using a host filt by (simp add: gridItems_def)
  show "gridStep env allItems u = allItems @ take 5 (filter possessesImage issues)"
    by (simp add: gridStep_def items)
next
  assume "js_includes u ''seeclickfix.com''"
  then show "apiUrl env u =
          js_replace (js_replace u ''{latitude}'' (stored_or (latitude env) ''41.307''))
            ''{longitude}'' (stored_or (longitude env) ''-72.925'')"
    by (simp add: apiUrl_def)
next
  show "stored_or None fallback = fallback" by (simp add: stored_or_def)
next
  assume "v \<noteq> []"
  then show "stored_or (Some v) fallback = v" by (simp add: stored_or_def)
next
  assume b: "CHR ''$'' \<notin> set rep \<and> split_at_first pat s = Some (before, after)"
  then show "s = before @ pat @ after" using split_at_first_append by blast
  show "js_replace s pat rep = before @ rep @ after"
    using b by (simp add: js_replace_def expand_no_dollar)
next
  assume "\<not> js_includes s pat"
  then show "js_replace s pat rep = s"
    using split_at_first_None [of pat s] by (simp add: js_replace_def)
qed

lemma apiUrl_issuesUrl:
  "apiUrl gridEnv issuesUrl = ''https://seeclickfix.com/api/v2/issues?lat=41.307&lng=-73.5''"
  by (simp add: apiUrl_def gridEnv_def issuesUrl_def stored_or_def js_replace_def)

lemma possessesImage_samples:
  "possessesImage (imageIssue n)" "\<not> possessesImage (plainIssue n)"
  by (simp_all add: possessesImage_def imageIssue_def plainIssue_def)

text \<open>C10 at a URL with both placeholders and a response of seven issues.\<close>

theorem seeclickfix_grid_path_witness:
  "js_includes issuesUrl ''seeclickfix.com''
   \<and> apiUrl gridEnv issuesUrl = ''https://seeclickfix.com/api/v2/issues?lat=41.307&lng=-73.5''
   \<and> grid_get gridEnv (apiUrl gridEnv issuesUrl) = Inr (JObj [(''issues'', JArr sevenIssues)])
   \<and> gridStep gridEnv [] issuesUrl =
       [imageIssue 1, imageIssue 3, imageIssue 4, imageIssue 5, imageIssue 6]
   \<and> stored_or (longitude gridEnv) ''-72.925'' = ''-73.5''
   \<and> split_at_first ''{latitude}'' ''lat={latitude}&lng=0'' = Some (''lat='', ''&lng=0'')
   \<and> js_replace ''lat={latitude}&lng=0'' ''{latitude}'' ''41.307'' = ''lat=41.307&lng=0''
   \<and> js_replace ''lat=5'' ''{latitude}'' ''41.307'' = ''lat=5''"
proof -
  let ?resp = "JObj [(''issues'', JArr sevenIssues)]"
  have h: "js_includes issuesUrl ''seeclickfix.com''" by (simp add: issuesUrl_def)
  have g: "grid_get gridEnv (apiUrl gridEnv issuesUrl) = Inr ?resp"
    by (simp add: apiUrl_issuesUrl) (simp add: gridEnv_def gridGet_def)
  have r: "\<not> nullish ?resp" "js_or (field ?resp ''issues'') ?resp = JArr sevenIssues"
    by (simp_all add: nullish_def js_or_def)
  have n: "\<forall>x \<in> set sevenIssues. \<not> nullish x"
    by (simp add: sevenIssues_def imageIssue_def plainIssue_def nullish_def)
  have f: "take 5 (filter possessesImage sevenIssues) =
             [imageIssue 1, imageIssue 3, imageIssue 4, imageIssue 5, imageIssue 6]"
    by (simp add: sevenIssues_def possessesImage_samples)
  have sp: "split_at_first ''{latitude}'' ''lat={latitude}&lng=0'' = Some (''lat='', ''&lng=0'')"
    by simp
  have d: "CHR ''$'' \<notin> set ''41.307''" by simp
  have ni: "\<not> js_includes ''lat=5'' ''{latitude}''" by simp
  have lon: "''-73.5'' \<noteq> []" by simp
  note T = seeclickfix_grid_path [where u = issuesUrl and env = gridEnv and response = ?resp
      and issues = sevenIssues and allItems = "[]" and v = "''-73.5''" and fallback = "''-72.925''"
      and rep = "''41.307''" and pat = "''{latitude}''"]
  have c1: "gridStep gridEnv [] issuesUrl = [] @ take 5 (filter possessesImage sevenIssues)"
    using T [where s = "''lat=5''"] h g r n by blast
  have c2: "stored_or (Some ''-73.5'') ''-72.925'' = ''-73.5''"
    using T [where s = "''lat=5''"] lon by blast
  have c3: "js_replace ''lat={latitude}&lng=0'' ''{latitude}'' ''41.307'' = ''lat='' @ ''41.307'' @ ''&lng=0''"
    using T [where s = "''lat={latitude}&lng=0''" and before = "''lat=''" and after = "''&lng=0''"]
      sp d by blast
  have c4: "js_replace ''lat=5'' ''{latitude}'' ''41.307'' = ''lat=5''"
    using T [where s = "''lat=5''"] ni by blast
  have lg: "longitude gridEnv = Some ''-73.5''" by (simp add: gridEnv_def)
  show ?thesis
    using h g c1 c2 c3 c4 sp by (simp add: f apiUrl_issuesUrl lg)
qed

section \<open>Properties of the hash router\<close>

text \<open>Escapes: a byte written as \<open>%XY\<close> is read back, and the digits are plain characters.\<close>

lemma below_16:
  "n < (16::nat) \<Longrightarrow>
     n \<in> {15, 14, 13, 12} \<or> n \<in> {11, 10, 9, 8} \<or> n \<in> {7, 6, 5, 4} \<or> n \<in> {3, 2, 1, 0}"
  by (simp only: insert_iff empty_iff) arith

lemma hex_value_digit: "n < 16 \<Longrightarrow> hex_value (hex_digit n) = Some n"
  using below_16 [of n] by (auto simp: hex_value_def hex_digit_def)

lemma hex_digit_plain: "n < 16 \<Longrightarrow> hex_digit n \<notin> set ''+&=%?''"
  using below_16 [of n] by (auto simp: hex_digit_def)

lemma of_char_div_16: "(of_char (c::char) :: nat) div 16 < 16"
proof -
  have "(of_char c :: nat) < 256" by simp
  then show ?thesis by linarith
qed

lemma char_of_nibbles: "char_of (16 * ((of_char c :: nat) div 16) + (of_char c :: nat) mod 16) = c"
  by simp

lemma percent_decode_escape:
  "percent_decode (percent_encode_byte c @ rest) = c # percent_decode rest"
  using hex_value_digit [OF of_char_div_16 [of c]] hex_value_digit [of "(of_char c :: nat) mod 16"]
  by (simp add: percent_encode_byte_def char_of_nibbles)

lemma percent_decode_plain:
  assumes "c \<noteq> CHR ''%''"
  shows "percent_decode (c # rest) = c # percent_decode rest"
proof (cases rest)
  case Nil
  then show ?thesis by simp
next
  case (Cons h t)
  then show ?thesis using assms by (cases t) simp_all
qed

text \<open>
  Decoding undoes both encoders: the serializer of \<open>URLSearchParams\<close> and
  \<open>encodeURIComponent\<close>.
\<close>

lemma plus_to_space_append: "plus_to_space (a @ b) = plus_to_space a @ plus_to_space b"
  by (simp add: plus_to_space_def)

lemma set_percent_encode_byte: "set (percent_encode_byte c) \<inter> set ''+&=?'' = {}"
  using hex_digit_plain [OF of_char_div_16 [of c]] hex_digit_plain [of "(of_char c :: nat) mod 16"]
  by (simp add: percent_encode_byte_def)

lemma plus_to_space_plain: "CHR ''+'' \<notin> set s \<Longrightarrow> plus_to_space s = s"
  by (induction s) (auto simp: plus_to_space_def)

lemma plus_to_space_escape: "plus_to_space (percent_encode_byte c) = percent_encode_byte c"
  using set_percent_encode_byte [of c] by (intro plus_to_space_plain) auto

lemma form_safe_plain: "form_safe c \<Longrightarrow> c \<notin> set ''+&=%?''"
  by (auto simp: form_safe_def)

lemma uri_unreserved_plain: "uri_unreserved c \<Longrightarrow> c \<notin> set ''+&=%''"
  by (auto simp: uri_unreserved_def)

lemma decode_form_char:
  "percent_decode (plus_to_space (form_encode_char c) @ t) = c # percent_decode t"
proof -
  consider "c = CHR '' ''" | "c \<noteq> CHR '' ''" "form_safe c" | "c \<noteq> CHR '' ''" "\<not> form_safe c"
    by blast
  then show ?thesis
  proof cases
    case 1
    then have "plus_to_space (form_encode_char c) = [c]"
      by (simp add: form_encode_char_def plus_to_space_def)
    then show ?thesis using 1 by (simp add: percent_decode_plain)
  next
    case 2
    then have "c \<noteq> CHR ''+''" "c \<noteq> CHR ''%''" using form_safe_plain by auto
    then have "plus_to_space (form_encode_char c) = [c]"
      using 2 by (simp add: form_encode_char_def plus_to_space_def)
    then show ?thesis using \<open>c \<noteq> CHR ''%''\<close> by (simp add: percent_decode_plain)
  next
    case 3
    then have "plus_to_space (form_encode_char c) = percent_encode_byte c"
      by (simp add: form_encode_char_def plus_to_space_escape)
    then show ?thesis by (simp add: percent_decode_escape)
  qed
qed

lemma form_decode_encode_append:
  "percent_decode (plus_to_space (form_encode s) @ t) = s @ percent_decode t"
proof (induction s)
  case Nil
  then show ?case by (simp add: form_encode_def plus_to_space_def)
next
  case (Cons c s)
  have "form_encode (c # s) = form_encode_char c @ form_encode s"
    by (simp add: form_encode_def)
  then have "percent_decode (plus_to_space (form_encode (c # s)) @ t)
      = percent_decode (plus_to_space (form_encode_char c) @ (plus_to_space (form_encode s) @ t))"
    by (simp add: plus_to_space_append)
  also have "\<dots> = c # percent_decode (plus_to_space (form_encode s) @ t)"
    by (rule decode_form_char)
  finally show ?case using Cons.IH by simp
qed

lemma form_decode_encode: "form_decode (form_encode s) = s"
  using form_decode_encode_append [of s "[]"] by (simp add: form_decode_def)

lemma decode_uri_char:
  "percent_decode (plus_to_space (uri_encode_char c) @ t) = c # percent_decode t"
proof (cases "uri_unreserved c")
  case True
  then have "c \<noteq> CHR ''+''" "c \<noteq> CHR ''%''" using uri_unreserved_plain by auto
  then have "plus_to_space (uri_encode_char c) = [c]"
    using True by (simp add: uri_encode_char_def plus_to_space_def)
  then show ?thesis using \<open>c \<noteq> CHR ''%''\<close> by (simp add: percent_decode_plain)
next
  case False
  then have "plus_to_space (uri_encode_char c) = percent_encode_byte c"
    by (simp add: uri_encode_char_def plus_to_space_escape)
  then show ?thesis by (simp add: percent_decode_escape)
qed

lemma uri_decode_encode_append:
  "percent_decode (plus_to_space (encodeURIComponent s) @ t) = s @ percent_decode t"
proof (induction s)
  case Nil
  then show ?case by (simp add: encodeURIComponent_def plus_to_space_def)
next
  case (Cons c s)
  have "encodeURIComponent (c # s) = uri_encode_char c @ encodeURIComponent s"
    by (simp add: encodeURIComponent_def)
  then have "percent_decode (plus_to_space (encodeURIComponent (c # s)) @ t)
      = percent_decode (plus_to_space (uri_encode_char c) @ (plus_to_space (encodeURIComponent s) @ t))"
    by (simp add: plus_to_space_append)
  also have "\<dots> = c # percent_decode (plus_to_space (encodeURIComponent s) @ t)"
    by (rule decode_uri_char)
  finally show ?case using Cons.IH by simp
qed

lemma form_decode_uri: "form_decode (encodeURIComponent s) = s"
  using uri_decode_encode_append [of s "[]"] by (simp add: form_decode_def)


lemma set_form_like:
  "set (uri_encode_char c) \<inter> set ''+&=?'' = {}"
proof (cases "uri_unreserved c")
  case True
  then show ?thesis by (auto simp: uri_encode_char_def uri_unreserved_def)
next
  case False
  then show ?thesis using set_percent_encode_byte [of c] by (simp add: uri_encode_char_def)
qed

lemma set_encodeURIComponent: "set (encodeURIComponent s) \<inter> set ''+&=?'' = {}"
proof (induction s)
  case Nil
  then show ?case by (simp add: encodeURIComponent_def)
next
  case (Cons c s)
  have "encodeURIComponent (c # s) = uri_encode_char c @ encodeURIComponent s"
    by (simp add: encodeURIComponent_def)
  then show ?case using Cons.IH set_form_like [of c] by (simp add: Int_Un_distrib2)
qed

text \<open>Integers: \<open>parseInt\<close> reads back what the template literal printed.\<close>

lemma digit_char: "d < 10 \<Longrightarrow> is_digit (''0123456789'' ! d)"
  unfolding is_digit_def by (rule nth_mem) simp

lemma is_digit_plain: "is_digit c \<Longrightarrow> c \<notin> set ''+-&=%? ''"
  by (auto simp: is_digit_def)

lemma is_digit_not_space: "is_digit c \<Longrightarrow> \<not> is_space c"
  by (auto simp: is_digit_def is_space_def)

lemma digits_show_nat: "list_all is_digit (show_nat n)"
proof (induction n rule: show_nat.induct)
  case (1 n)
  show ?case
  proof (cases "n < 10")
    case True
    then show ?thesis using digit_char [of n] by (subst show_nat.simps) simp
  next
    case False
    have "n mod 10 < 10" by simp
    then have "is_digit (''0123456789'' ! (n mod 10))" by (rule digit_char)
    then show ?thesis using False 1 by (subst show_nat.simps) simp
  qed
qed

lemma show_nat_nonempty: "show_nat n \<noteq> []"
  by (subst show_nat.simps) simp

lemma below_10:
  "d < (10::nat) \<Longrightarrow>
     d \<in> {9, 8, 7, 6, 5} \<or> d \<in> {4, 3, 2, 1, 0}"
  by (simp only: insert_iff empty_iff) arith

lemma digit_value_digit: "d < 10 \<Longrightarrow> digit_value (''0123456789'' ! d) = d"
  using below_10 [of d] by (auto simp: digit_value_def)

lemma decimal_value_snoc: "decimal_value (s @ [c]) = 10 * decimal_value s + digit_value c"
  by (simp add: decimal_value_def)

lemma decimal_value_show_nat: "decimal_value (show_nat n) = n"
proof (induction n rule: show_nat.induct)
  case (1 n)
  show ?case
  proof (cases "n < 10")
    case True
    then have "show_nat n = [''0123456789'' ! n]" by (subst show_nat.simps) simp
    then show ?thesis using digit_value_digit [OF True] by (simp add: decimal_value_def)
  next
    case False
    then have s: "show_nat n = show_nat (n div 10) @ [''0123456789'' ! (n mod 10)]"
      by (subst show_nat.simps) simp
    have "digit_value (''0123456789'' ! (n mod 10)) = n mod 10"
      by (rule digit_value_digit) simp
    then show ?thesis using 1 [OF False] by (simp add: s decimal_value_snoc)
  qed
qed

text \<open>Pieces without \<open>&\<close>, joined by \<open>&\<close>, are the pieces \<open>URLSearchParams\<close> parses.\<close>

lemma js_split_plain: "sep \<notin> set a \<Longrightarrow> js_split sep a = [a]"
  by (induction a) auto

lemma js_split_piece:
  "sep \<notin> set a \<Longrightarrow> js_split sep (a @ sep # rest) = a # js_split sep rest"
  by (induction a) auto

lemma percent_decode_id: "CHR ''%'' \<notin> set s \<Longrightarrow> percent_decode s = s"
proof (induction s)
  case Nil
  then show ?case by simp
next
  case (Cons c s)
  then have "c \<noteq> CHR ''%''" by auto
  then show ?case using Cons by (simp add: percent_decode_plain)
qed

lemma form_decode_id:
  assumes "CHR ''%'' \<notin> set s" "CHR ''+'' \<notin> set s"
  shows "form_decode s = s"
  using assms by (simp add: form_decode_def plus_to_space_plain percent_decode_id)

lemma show_nat_plain: "c \<in> set (show_nat n) \<Longrightarrow> c \<notin> set ''+-&=%? ''"
  using digits_show_nat [of n] is_digit_plain [of c] by (simp only: list_all_iff) blast

lemma takeWhile_all: "list_all P s \<Longrightarrow> takeWhile P s = s"
  by (induction s) auto

lemma parseInt10_digits:
  assumes "list_all is_digit s" "s \<noteq> []"
  shows "parseInt10 s = Some (int (decimal_value s))"
proof -
  obtain c cs where s: "s = c # cs" using assms(2) by (cases s) auto
  then have c: "is_digit c" using assms(1) by simp
  have sp: "\<not> is_space c" using c by (rule is_digit_not_space)
  have pm: "c \<noteq> CHR ''-''" "c \<noteq> CHR ''+''" using is_digit_plain [OF c] by auto
  have "list_all is_digit cs" using assms(1) s by simp
  then have d: "takeWhile is_digit cs = cs" by (rule takeWhile_all)
  show ?thesis
    unfolding parseInt10_def s Let_def using sp pm c by (simp add: d)
qed

lemma parseInt10_minus_digits:
  assumes "list_all is_digit s" "s \<noteq> []"
  shows "parseInt10 (CHR ''-'' # s) = Some (- int (decimal_value s))"
proof -
  have sp: "\<not> is_space CHR ''-''" by (simp add: is_space_def)
  have d: "takeWhile is_digit s = s" using takeWhile_all [OF assms(1)] .
  have "dropWhile is_space (CHR ''-'' # s) = CHR ''-'' # s" using sp by simp
  then show ?thesis
    unfolding parseInt10_def Let_def using assms(2) by (simp add: d)
qed

lemma parseInt10_show_int: "parseInt10 (show_int i) = Some i"
proof (cases "i < 0")
  case True
  then show ?thesis
    using parseInt10_minus_digits [OF digits_show_nat show_nat_nonempty, of "nat (- i)"]
    by (simp add: show_int_def decimal_value_show_nat)
next
  case False
  then show ?thesis
    using parseInt10_digits [OF digits_show_nat show_nat_nonempty, of "nat i"]
    by (simp add: show_int_def decimal_value_show_nat)
qed

lemma show_int_plain: "c \<in> set (show_int i) \<Longrightarrow> c \<notin> set ''+&=%? ''"
proof (cases "i < 0")
  case True
  assume "c \<in> set (show_int i)"
  then have "c = CHR ''-'' \<or> c \<in> set (show_nat (nat (- i)))"
    using True by (simp add: show_int_def)
  then show ?thesis using show_nat_plain [of c "nat (- i)"] by auto
next
  case False
  assume "c \<in> set (show_int i)"
  then have "c \<in> set (show_nat (nat i))" using False by (simp add: show_int_def)
  then show ?thesis using show_nat_plain [of c "nat i"] by auto
qed

lemma form_decode_show_int: "form_decode (show_int i) = show_int i"
  using show_int_plain [of _ i] by (intro form_decode_id) auto


lemma form_encode_char_plain: "set (form_encode_char c) \<inter> set ''&=?'' = {}"
proof -
  consider "c = CHR '' ''" | "c \<noteq> CHR '' ''" "form_safe c" | "c \<noteq> CHR '' ''" "\<not> form_safe c"
    by blast
  then show ?thesis
  proof cases
    case 1
    then show ?thesis by (simp add: form_encode_char_def)
  next
    case 2
    then show ?thesis using form_safe_plain [of c] by (simp add: form_encode_char_def)
  next
    case 3
    then show ?thesis using set_percent_encode_byte [of c] by (simp add: form_encode_char_def)
  qed
qed

lemma form_encode_plain: "set (form_encode s) \<inter> set ''&=?'' = {}"
proof (induction s)
  case Nil
  then show ?case by (simp add: form_encode_def)
next
  case (Cons c s)
  have "form_encode (c # s) = form_encode_char c @ form_encode s"
    by (simp add: form_encode_def)
  then show ?case using Cons.IH form_encode_char_plain [of c] by (simp add: Int_Un_distrib2)
qed

lemma split_at_first_char:
  "c \<notin> set a \<Longrightarrow> split_at_first [c] (a @ c # b) = Some (a, b)"
  by (induction a) auto

lemma join_with_Cons:
  "join_with sep (x # xs) = (if xs = [] then x else x @ sep @ join_with sep xs)"
  by (cases xs) simp_all

lemma js_split_join:
  "\<forall>y \<in> set (x # xs). c \<notin> set y \<Longrightarrow> js_split c (join_with [c] (x # xs)) = x # xs"
proof (induction xs arbitrary: x)
  case Nil
  then show ?case by (simp add: js_split_plain)
next
  case (Cons z zs)
  have "js_split c (join_with [c] (x # z # zs)) = js_split c (x @ c # join_with [c] (z # zs))"
    by simp
  also have "\<dots> = x # js_split c (join_with [c] (z # zs))"
    using Cons.prems by (intro js_split_piece) simp
  also have "js_split c (join_with [c] (z # zs)) = z # zs"
    using Cons.prems by (intro Cons.IH) simp
  finally show ?case .
qed

lemma usp_parse_join:
  assumes "\<forall>y \<in> set ps. CHR ''&'' \<notin> set y \<and> y \<noteq> []" "\<not> prefix ''?'' (join_with ''&'' ps)"
  shows "usp_parse (join_with ''&'' ps) = map usp_pair ps"
proof (cases ps)
  case Nil
  then show ?thesis by (simp add: usp_parse_def)
next
  case (Cons x xs)
  have "js_split CHR ''&'' (join_with ''&'' (x # xs)) = x # xs"
    using assms(1) Cons by (intro js_split_join) simp
  moreover have "filter (\<lambda>piece. piece \<noteq> []) ps = ps"
    using assms(1) by (simp add: filter_id_conv)
  ultimately show ?thesis
    using assms(2) unfolding usp_parse_def Cons by (simp only: if_False)
qed


text \<open>
  The fragment after an update, parsed: both copies of \<open>updateURLHash\<close> write \<open>feed\<close> and
  \<open>ref\<close> first, the newer one followed by the parameters it collected, and \<open>parseHash\<close>
  reads back the key and the index written, whatever they and the old fragment were.
\<close>

lemma usp_pair_encoded: "usp_pair (form_encode n @ ''='' @ form_encode v) = (n, v)"
proof -
  have "CHR ''='' \<notin> set (form_encode n)" using form_encode_plain [of n] by auto
  then have "split_at_first ''='' (form_encode n @ CHR ''='' # form_encode v)
      = Some (form_encode n, form_encode v)"
    by (rule split_at_first_char)
  then show ?thesis by (simp add: usp_pair_def form_decode_encode)
qed

lemma usp_pair_feed: "usp_pair (''feed='' @ encodeURIComponent f) = (''feed'', f)"
proof -
  have "split_at_first ''='' (''feed'' @ CHR ''='' # encodeURIComponent f)
      = Some (''feed'', encodeURIComponent f)"
    by (rule split_at_first_char) simp
  moreover have "form_decode ''feed'' = ''feed''"
    by (simp add: form_decode_def plus_to_space_def)
  ultimately show ?thesis by (simp add: usp_pair_def form_decode_uri)
qed

lemma usp_pair_ref: "usp_pair (''ref='' @ show_int r) = (''ref'', show_int r)"
proof -
  have "split_at_first ''='' (''ref'' @ CHR ''='' # show_int r) = Some (''ref'', show_int r)"
    by (rule split_at_first_char) simp
  moreover have "form_decode ''ref'' = ''ref''"
    by (simp add: form_decode_def plus_to_space_def)
  ultimately show ?thesis by (simp add: usp_pair_def form_decode_show_int)
qed

lemma usp_toString_Nil_iff: "usp_toString ps = [] \<longleftrightarrow> ps = []"
proof (cases ps)
  case Nil
  then show ?thesis by (simp add: usp_toString_def)
next
  case (Cons p qs)
  obtain n v where p: "p = (n, v)" by (cases p)
  show ?thesis by (simp add: usp_toString_def Cons p join_with_Cons)
qed

lemma updateURLHash_pieces:
  "drop 1 (updateURLHash f r hash) =
     join_with ''&''
       ((''feed='' @ encodeURIComponent f) # (''ref='' @ show_int r)
        # map (\<lambda>(name, val). form_encode name @ ''='' @ form_encode val)
            (otherParams (usp_parse (drop 1 hash))))"
proof (cases "otherParams (usp_parse (drop 1 hash)) = []")
  case True
  then show ?thesis by (simp add: updateURLHash_def usp_toString_def)
next
  case False
  then have "usp_toString (otherParams (usp_parse (drop 1 hash))) \<noteq> []"
    by (simp add: usp_toString_Nil_iff)
  then show ?thesis using False
    by (simp add: updateURLHash_def Let_def join_with_Cons) (simp add: usp_toString_def)
qed

lemma map_usp_pair_encoded:
  "map usp_pair (map (\<lambda>(name, val). form_encode name @ ''='' @ form_encode val) ps) = ps"
proof (induction ps)
  case Nil
  then show ?case by simp
next
  case (Cons p ps)
  obtain n v where p: "p = (n, v)" by (cases p)
  have "usp_pair (form_encode n @ ''='' @ form_encode v) = (n, v)" by (rule usp_pair_encoded)
  then show ?case using Cons.IH by (simp add: p)
qed

lemma usp_parse_updateURLHash:
  "usp_parse (drop 1 (updateURLHash f r hash)) =
     (''feed'', f) # (''ref'', show_int r) # otherParams (usp_parse (drop 1 hash))"
proof -
  let ?piece = "\<lambda>(name, val). form_encode name @ ''='' @ form_encode val"
  let ?others = "otherParams (usp_parse (drop 1 hash))"
  let ?ps = "(''feed='' @ encodeURIComponent f) # (''ref='' @ show_int r) # map ?piece ?others"
  have a: "CHR ''&'' \<notin> set (''feed='' @ encodeURIComponent f)"
    using set_encodeURIComponent [of f] by auto
  have b: "CHR ''&'' \<notin> set (''ref='' @ show_int r)"
    using show_int_plain [of "CHR ''&''" r] by auto
  have c: "CHR ''&'' \<notin> set (?piece p) \<and> ?piece p \<noteq> []" for p
  proof -
    obtain n v where p: "p = (n, v)" by (cases p)
    show ?thesis using form_encode_plain [of n] form_encode_plain [of v] by (auto simp: p)
  qed
  have 1: "\<forall>y \<in> set ?ps. CHR ''&'' \<notin> set y \<and> y \<noteq> []"
    using a b c by auto
  have 2: "\<not> prefix ''?'' (join_with ''&'' ?ps)"
    by (simp add: join_with_Cons)
  have "usp_parse (drop 1 (updateURLHash f r hash)) = usp_parse (join_with ''&'' ?ps)"
    by (simp only: updateURLHash_pieces)
  also have "\<dots> = map usp_pair ?ps"
    using 1 2 by (rule usp_parse_join)
  also have "\<dots> = usp_pair (''feed='' @ encodeURIComponent f)
      # usp_pair (''ref='' @ show_int r) # map usp_pair (map ?piece ?others)"
    by (simp only: list.map)
  also have "\<dots> = (''feed'', f) # (''ref'', show_int r) # ?others"
    by (simp only: usp_pair_feed usp_pair_ref map_usp_pair_encoded)
  finally show ?thesis .
qed

lemma parseHash_updateURLHash: "parseHash (updateURLHash f r hash) = (f, r)"
  unfolding parseHash_def usp_get_def usp_parse_updateURLHash Let_def
  by (simp add: parseInt10_show_int)


lemma usp_parse_updateURLHash_plain:
  "usp_parse (drop 1 (updateURLHash_plain f r hash)) = [(''feed'', f), (''ref'', show_int r)]"
proof -
  let ?ps = "[''feed='' @ encodeURIComponent f, ''ref='' @ show_int r]"
  have a: "CHR ''&'' \<notin> set (''feed='' @ encodeURIComponent f)"
    using set_encodeURIComponent [of f] by auto
  have b: "CHR ''&'' \<notin> set (''ref='' @ show_int r)"
    using show_int_plain [of "CHR ''&''" r] by auto
  have 1: "\<forall>y \<in> set ?ps. CHR ''&'' \<notin> set y \<and> y \<noteq> []"
    using a b by auto
  have 2: "\<not> prefix ''?'' (join_with ''&'' ?ps)"
    by (simp add: join_with_Cons)
  have "drop 1 (updateURLHash_plain f r hash) = join_with ''&'' ?ps"
    by (simp add: updateURLHash_plain_def)
  then have "usp_parse (drop 1 (updateURLHash_plain f r hash)) = usp_parse (join_with ''&'' ?ps)"
    by (simp only:)
  also have "\<dots> = map usp_pair ?ps"
    using 1 2 by (rule usp_parse_join)
  also have "\<dots> = [usp_pair (''feed='' @ encodeURIComponent f), usp_pair (''ref='' @ show_int r)]"
    by (simp only: list.map)
  also have "\<dots> = [(''feed'', f), (''ref'', show_int r)]"
    by (simp only: usp_pair_feed usp_pair_ref)
  finally show ?thesis .
qed

lemma parseHash_updateURLHash_plain: "parseHash (updateURLHash_plain f r hash) = (f, r)"
  unfolding parseHash_def usp_get_def usp_parse_updateURLHash_plain Let_def
  by (simp add: parseInt10_show_int)

text \<open>
  The parameters the newer copy collects are the old ones other than \<open>feed\<close> and \<open>ref\<close>, as
  they were, when no name is repeated in the old fragment.
\<close>

lemma usp_set_fresh: "k \<notin> fst ` set acc \<Longrightarrow> usp_set k v acc = acc @ [(k, v)]"
  by (induction acc) auto

lemma otherParams_fold_distinct:
  assumes "distinct (map fst ps)" "fst ` set acc \<inter> fst ` set ps = {}"
  shows "fold (\<lambda>(key, val) acc. if key \<noteq> ''feed'' \<and> key \<noteq> ''ref'' then usp_set key val acc else acc)
           ps acc
         = acc @ filter (\<lambda>(key, val). key \<noteq> ''feed'' \<and> key \<noteq> ''ref'') ps"
  using assms
proof (induction ps arbitrary: acc)
  case Nil
  then show ?case by simp
next
  case (Cons p ps)
  obtain k v where p: "p = (k, v)" by (cases p)
  have d: "distinct (map fst ps)" and k: "k \<notin> fst ` set ps" "k \<notin> fst ` set acc"
    using Cons.prems by (auto simp: p)
  show ?case
  proof (cases "k \<noteq> ''feed'' \<and> k \<noteq> ''ref''")
    case True
    have "fst ` set (acc @ [(k, v)]) \<inter> fst ` set ps = {}"
      using Cons.prems(2) k by (auto simp: p)
    then show ?thesis
      using True Cons.IH [OF d, of "acc @ [(k, v)]"] usp_set_fresh [OF k(2), of v]
      by (simp add: p)
  next
    case False
    have "fst ` set acc \<inter> fst ` set ps = {}" using Cons.prems(2) by auto
    then show ?thesis using False Cons.IH [OF d, of acc] by (auto simp: p)
  qed
qed

lemma otherParams_distinct:
  "distinct (map fst ps) \<Longrightarrow>
     otherParams ps = filter (\<lambda>(key, val). key \<noteq> ''feed'' \<and> key \<noteq> ''ref'') ps"
  using otherParams_fold_distinct [of ps "[]"] by (simp add: otherParams_def)

lemmas hash_defs = usp_parse_def usp_pair_def usp_get_def form_decode_def plus_to_space_def
  updateURLHash_def
  updateURLHash_plain_def otherParams_def usp_toString_def form_encode_def form_safe_def
  form_encode_char_def uri_encode_char_def encodeURIComponent_def uri_unreserved_def show_int_def show_nat.simps parseHash_def
  parseInt10_def is_digit_def decimal_value_def digit_value_def is_space_def percent_encode_byte_def
  hex_digit_def hex_value_def char_of_def bit_Suc bit_0

text \<open>
  C8. Every hash update is claimed to keep the fragment parameters other than \<open>feed\<close> and
  \<open>ref\<close>. The older copy of \<open>updateURLHash\<close> writes \<open>feed\<close> and \<open>ref\<close> only: on the
  fragment \<open>#feed=nasa&ref=0&sidetab=settings\<close> the parameter \<open>sidetab\<close> is gone after the
  update. The newer copy keeps it, and both read back the pair written (on every input:
  \<open>parseHash_updateURLHash\<close> and \<open>parseHash_updateURLHash_plain\<close>); of a repeated
  parameter the newer copy keeps the last value only.
\<close>

theorem older_updateURLHash_drops_parameters:
  "usp_get (usp_parse (drop 1 settingsHash)) ''sidetab'' = Some ''settings''
   \<and> updateURLHash_plain ''nasa'' 1 settingsHash = ''#feed=nasa&ref=1''
   \<and> usp_get (usp_parse (drop 1 (updateURLHash_plain ''nasa'' 1 settingsHash))) ''sidetab'' = None
   \<and> parseHash (updateURLHash_plain ''nasa'' 1 settingsHash) = (''nasa'', 1)
   \<and> updateURLHash ''nasa'' 1 settingsHash = ''#feed=nasa&ref=1&sidetab=settings''
   \<and> parseHash (updateURLHash ''nasa'' 1 settingsHash) = (''nasa'', 1)
   \<and> usp_parse (drop 1 tagsHash) =
       [(''feed'', ''nasa''), (''ref'', ''0''), (''tag'', ''a b''), (''tag'', ''c'')]
   \<and> updateURLHash ''nasa'' 1 tagsHash = ''#feed=nasa&ref=1&tag=c''"
  by (simp add: settingsHash_def tagsHash_def hash_defs)

end
